theory Spec2Isabelle
  imports Complex_Main
begin

section \<open>Data model of \<^verbatim>\<open>main.py\<close> (class \<^verbatim>\<open>CoordinateDrawer\<close>)\<close>

text \<open>
  Python strings are sequences of Unicode code points; file names and the lines of the
  calibration file contain non-ASCII text, so a string is a list of code points.
\<close>

type_synonym ustr = "nat list"

text \<open>
  The exceptions the class can raise.  The three \<^verbatim>\<open>ValueError\<close>s of the source are told
  apart by the place that raises them: \<^verbatim>\<open>cv2.imread\<close> returned \<^verbatim>\<open>None\<close> (line 39), the builtin
  \<^verbatim>\<open>float\<close> rejected a field (line 52), the number of points is not 4 (line 54); \<^verbatim>\<open>int\<close>
  raises a fourth one on a not-a-number and a tuple assignment a fifth one when the
  number of values differs from the number of targets; numpy raises the last two.
  \<open>Cv2Error\<close> stands for \<^verbatim>\<open>cv2.error\<close>.
\<close>

datatype value_error =
  UnreadableImage | BadFloat | NotFourCorners | NanToInt | UnpackMismatch
  | NegativeDimensions | BroadcastMismatch

datatype py_error =
    FileNotFoundError
  | ValueError value_error
  | IndexError
  | ZeroDivisionError
  | OverflowError
  | Cv2Error

text \<open>
  A Python \<^verbatim>\<open>float\<close> is an IEEE 754 binary64 value: a finite number (here the rational it
  denotes; the sign of a zero is not kept, nothing in the class observes it), an infinity
  or a not-a-number.
\<close>

datatype pyfloat = Finite rat | PInf | NInf | NaN

text \<open>
  An image is a numpy array of shape \<open>(height, width, 3)\<close> with 8-bit channels.  Arrays are
  mutable objects that the class shares by reference, so they live in a store and the
  mapper holds the address of its image.
\<close>

type_synonym pixel = "nat \<times> nat \<times> nat"

record image =
  height :: nat
  width :: nat
  pix :: "nat \<Rightarrow> nat \<Rightarrow> pixel"

type_synonym addr = nat
type_synonym store = "image list"

definition alloc :: "store \<Rightarrow> image \<Rightarrow> addr \<times> store" where
  "alloc s im = (length s, s @ [im])"

text \<open>The attributes of a constructed \<^verbatim>\<open>CoordinateDrawer\<close>.\<close>

record mapper =
  folder_path :: ustr
  display_size :: "int \<times> int"
  image_path :: ustr
  txt_path :: ustr
  corner_points :: "pyfloat list list"
  original_image :: addr
  lon_range :: "pyfloat \<times> pyfloat"
  lat_range :: "pyfloat \<times> pyfloat"

text \<open>
  What construction reads from the outside: the listing of the folder (\<^verbatim>\<open>os.listdir\<close>),
  the decoder \<^verbatim>\<open>cv2.imread\<close> (\<open>None\<close> when the file cannot be decoded) and the lines of a
  text file in file order, as iterating over the open file yields them.
\<close>

record env =
  listdir :: "ustr list"
  imread :: "ustr \<Rightarrow> image option"
  readlines :: "ustr \<Rightarrow> ustr list"

section \<open>String operations of the Python runtime used by the class\<close>

definition endswith :: "ustr \<Rightarrow> ustr \<Rightarrow> bool" where
  "endswith s suf = (length suf \<le> length s \<and> drop (length s - length suf) s = suf)"

fun contains :: "ustr \<Rightarrow> ustr \<Rightarrow> bool" where
  "contains sub [] = (sub = [])"
| "contains sub (c # cs) = (take (length sub) (c # cs) = sub \<or> contains sub cs)"

fun split_on :: "nat \<Rightarrow> ustr \<Rightarrow> ustr list" where
  "split_on sep [] = [[]]"
| "split_on sep (c # cs) =
     (if c = sep then [] # split_on sep cs
      else (case split_on sep cs of [] \<Rightarrow> [[c]] | p # ps \<Rightarrow> (c # p) # ps))"

definition isspace :: "nat \<Rightarrow> bool" where
  "isspace c = (c \<in> set [9, 10, 11, 12, 13, 28, 29, 30, 31, 32, 133, 160, 5760, 8232, 8233,
                          8239, 8287, 12288] \<or> (8192 \<le> c \<and> c \<le> 8202))"

definition strip :: "ustr \<Rightarrow> ustr" where
  "strip s = rev (dropWhile isspace (rev (dropWhile isspace s)))"

definition path_join :: "ustr \<Rightarrow> ustr \<Rightarrow> ustr" where
  "path_join d f = (if d = [] \<or> last d = 47 then d @ f else d @ [47] @ f)"

definition dot_png :: ustr where "dot_png = [46, 112, 110, 103]"
definition dot_txt :: ustr where "dot_txt = [46, 116, 120, 116]"

text \<open>The marker \<^verbatim>\<open>U+7ECF U+7EAC U+5EA6 U+5750 U+6807\<close> and the full-width colon \<^verbatim>\<open>U+FF1A\<close>.\<close>

definition marker :: ustr where "marker = [32463, 32428, 24230, 22352, 26631]"
definition fw_colon :: nat where "fw_colon = 65306"
definition comma :: nat where "comma = 44"

section \<open>Construction\<close>

text \<open>
  Lines 29 to 33: the loop over the listing.  Each matching name overwrites the path found
  before it, so the last \<^verbatim>\<open>.png\<close> and the last \<^verbatim>\<open>.txt\<close> of the listing remain.
\<close>

fun scan_folder :: "ustr \<Rightarrow> ustr list \<Rightarrow> ustr option \<times> ustr option \<Rightarrow> ustr option \<times> ustr option" where
  "scan_folder d [] acc = acc"
| "scan_folder d (file # files) (ip, tp) =
     (if endswith file dot_png then scan_folder d files (Some (path_join d file), tp)
      else if endswith file dot_txt then scan_folder d files (ip, Some (path_join d file))
      else scan_folder d files (ip, tp))"

text \<open>Python truth value of an attribute that is \<^verbatim>\<open>None\<close> or a string.\<close>

fun truthy :: "ustr option \<Rightarrow> bool" where
  "truthy None = False"
| "truthy (Some p) = (p \<noteq> [])"

text \<open>Lines 29 to 35.\<close>

definition find_files :: "ustr \<Rightarrow> ustr list \<Rightarrow> py_error + (ustr \<times> ustr)" where
  "find_files d files =
     (case scan_folder d files (None, None) of
        (Some ip, Some tp) \<Rightarrow>
          if truthy (Some ip) \<and> truthy (Some tp) then Inr (ip, tp) else Inl FileNotFoundError
      | _ \<Rightarrow> Inl FileNotFoundError)"

text \<open>
  Line 51: the text after the last full-width colon, stripped, split at the commas.
\<close>

definition fields :: "ustr \<Rightarrow> ustr list" where
  "fields line = split_on comma (strip (last (split_on fw_colon line)))"

text \<open>
  Line 52: \<^verbatim>\<open>list(map(float, coords))\<close>.  The builtin \<^verbatim>\<open>float\<close> is a parameter \<open>pf\<close>
  (\<open>None\<close> where it raises \<^verbatim>\<open>ValueError\<close>); the first field it rejects aborts.
\<close>

fun map_float :: "(ustr \<Rightarrow> pyfloat option) \<Rightarrow> ustr list \<Rightarrow> py_error + pyfloat list" where
  "map_float pf [] = Inr []"
| "map_float pf (f # fs) =
     (case pf f of
        None \<Rightarrow> Inl (ValueError BadFloat)
      | Some x \<Rightarrow> (case map_float pf fs of Inl e \<Rightarrow> Inl e | Inr xs \<Rightarrow> Inr (x # xs)))"

text \<open>Lines 49 to 52: the loop over the lines, appending one point per marked line.\<close>

fun read_points :: "(ustr \<Rightarrow> pyfloat option) \<Rightarrow> ustr list \<Rightarrow> pyfloat list list
    \<Rightarrow> py_error + pyfloat list list" where
  "read_points pf [] points = Inr points"
| "read_points pf (line # lines) points =
     (if contains marker line then
        (case map_float pf (fields line) of
           Inl e \<Rightarrow> Inl e
         | Inr p \<Rightarrow> read_points pf lines (points @ [p]))
      else read_points pf lines points)"

text \<open>Lines 45 to 55.\<close>

definition read_corner_points :: "(ustr \<Rightarrow> pyfloat option) \<Rightarrow> ustr list
    \<Rightarrow> py_error + pyfloat list list" where
  "read_corner_points pf lines =
     (case read_points pf lines [] of
        Inl e \<Rightarrow> Inl e
      | Inr points \<Rightarrow>
          if length points \<noteq> 4 then Inl (ValueError NotFourCorners) else Inr points)"

text \<open>Python list indexing with a non-negative index.\<close>

definition item :: "'a list \<Rightarrow> nat \<Rightarrow> py_error + 'a" where
  "item xs i = (if i < length xs then Inr (xs ! i) else Inl IndexError)"

text \<open>
  Lines 57 to 61.  The unpacking needs exactly four points; \<open>read_corner_points\<close> returns
  no other list, and Python raises a \<^verbatim>\<open>ValueError\<close> on any other.
  The index expressions are evaluated in the order of the source.
\<close>

fun coordinate_range :: "pyfloat list list \<Rightarrow> py_error + (pyfloat \<times> pyfloat) \<times> (pyfloat \<times> pyfloat)" where
  "coordinate_range [left_bottom, left_top, right_top, right_bottom] =
     (case item left_top 0 of Inl e \<Rightarrow> Inl e | Inr a \<Rightarrow>
      case item right_bottom 0 of Inl e \<Rightarrow> Inl e | Inr b \<Rightarrow>
      case item left_bottom 1 of Inl e \<Rightarrow> Inl e | Inr c \<Rightarrow>
      case item left_top 1 of Inl e \<Rightarrow> Inl e | Inr d \<Rightarrow>
      Inr ((a, b), (c, d)))"
| "coordinate_range _ = Inl (ValueError UnpackMismatch)"

text \<open>
  Lines 10 to 43: the constructor with \<^verbatim>\<open>_initialize\<close>.  \<open>d\<close> is the normalised folder
  path.  The decoded image becomes a new object of the store.
\<close>

definition initialize :: "env \<Rightarrow> (ustr \<Rightarrow> pyfloat option) \<Rightarrow> ustr \<Rightarrow> int \<times> int \<Rightarrow> store
    \<Rightarrow> py_error + (mapper \<times> store)" where
  "initialize ev pf d dsize s =
     (case find_files d (listdir ev) of
        Inl e \<Rightarrow> Inl e
      | Inr (ip, tp) \<Rightarrow>
          (case imread ev ip of
             None \<Rightarrow> Inl (ValueError UnreadableImage)
           | Some im \<Rightarrow>
               (case alloc s im of (a, s') \<Rightarrow>
                 (case read_corner_points pf (readlines ev tp) of
                    Inl e \<Rightarrow> Inl e
                  | Inr points \<Rightarrow>
                      (case coordinate_range points of
                         Inl e \<Rightarrow> Inl e
                       | Inr (lons, lats) \<Rightarrow>
                           Inr (\<lparr> folder_path = d, display_size = dsize, image_path = ip,
                                  txt_path = tp, corner_points = points, original_image = a,
                                  lon_range = lons, lat_range = lats \<rparr>, s'))))))"

text \<open>Lines 109 to 111: the dictionary with the keys \<^verbatim>\<open>longitude\<close> and \<^verbatim>\<open>latitude\<close>.\<close>

definition get_coordinate_range :: "mapper \<Rightarrow> (string \<rightharpoonup> pyfloat \<times> pyfloat)" where
  "get_coordinate_range m = [''longitude'' \<mapsto> lon_range m, ''latitude'' \<mapsto> lat_range m]"

section \<open>Python floats: IEEE 754 binary64 arithmetic\<close>

text \<open>
  Every arithmetic operation on floats returns the exact result rounded to the nearest
  binary64 value, ties to the even significand; a result of magnitude \<open>2 ^ 1024\<close> or more
  after rounding is an infinity.  \<open>bitlen n\<close> is the number of binary digits of \<open>n\<close>,
  \<open>floor_log2 a\<close> the exponent \<open>e\<close> with \<open>2 ^ e \<le> a < 2 ^ (e + 1)\<close>.
\<close>

fun bitlen :: "nat \<Rightarrow> nat" where
  "bitlen n = (if n = 0 then 0 else Suc (bitlen (n div 2)))"

definition floor_log2 :: "rat \<Rightarrow> int" where
  "floor_log2 a =
     (case quotient_of a of (p, d) \<Rightarrow>
        let k = int (bitlen (nat p)) - int (bitlen (nat d))
        in if 2 powi k \<le> a then k else k - 1)"

definition round_half_even :: "rat \<Rightarrow> int" where
  "round_half_even x =
     (let f = \<lfloor>x\<rfloor>; r = x - of_int f
      in if r < 1 / 2 then f else if 1 / 2 < r then f + 1 else if even f then f else f + 1)"

definition rnd :: "rat \<Rightarrow> pyfloat" where
  "rnd q =
     (if q = 0 then Finite 0
      else let a = \<bar>q\<bar>;
               e = max (floor_log2 a) (- 1022);
               u = 2 powi (e - 52);
               r = of_int (round_half_even (a / u)) * u
           in if 2 powi 1024 \<le> r then (if 0 < q then PInf else NInf)
              else Finite (if 0 < q then r else - r))"

text \<open>The rationals that are binary64 values.\<close>

definition is_double :: "rat \<Rightarrow> bool" where
  "is_double q = (rnd q = Finite q)"

text \<open>\<^verbatim>\<open>a - b\<close> on floats.\<close>

fun fsub :: "pyfloat \<Rightarrow> pyfloat \<Rightarrow> pyfloat" where
  "fsub (Finite x) (Finite y) = rnd (x - y)"
| "fsub NaN b = NaN"
| "fsub a NaN = NaN"
| "fsub PInf PInf = NaN"
| "fsub NInf NInf = NaN"
| "fsub PInf b = PInf"
| "fsub NInf b = NInf"
| "fsub (Finite x) PInf = NInf"
| "fsub (Finite x) NInf = PInf"

text \<open>\<^verbatim>\<open>a * b\<close> on floats.\<close>

fun fmul :: "pyfloat \<Rightarrow> pyfloat \<Rightarrow> pyfloat" where
  "fmul (Finite x) (Finite y) = rnd (x * y)"
| "fmul NaN b = NaN"
| "fmul a NaN = NaN"
| "fmul (Finite x) PInf = (if x = 0 then NaN else if 0 < x then PInf else NInf)"
| "fmul (Finite x) NInf = (if x = 0 then NaN else if 0 < x then NInf else PInf)"
| "fmul PInf (Finite y) = (if y = 0 then NaN else if 0 < y then PInf else NInf)"
| "fmul NInf (Finite y) = (if y = 0 then NaN else if 0 < y then NInf else PInf)"
| "fmul PInf PInf = PInf"
| "fmul PInf NInf = NInf"
| "fmul NInf PInf = NInf"
| "fmul NInf NInf = PInf"

text \<open>
  \<^verbatim>\<open>a / b\<close> on floats: Python raises \<^verbatim>\<open>ZeroDivisionError\<close> when the divisor is zero,
  whatever the dividend, and follows IEEE 754 otherwise.
\<close>

fun fdiv :: "pyfloat \<Rightarrow> pyfloat \<Rightarrow> py_error + pyfloat" where
  "fdiv a (Finite y) =
     (if y = 0 then Inl ZeroDivisionError
      else Inr (case a of
                  Finite x \<Rightarrow> rnd (x / y)
                | PInf \<Rightarrow> if 0 < y then PInf else NInf
                | NInf \<Rightarrow> if 0 < y then NInf else PInf
                | NaN \<Rightarrow> NaN))"
| "fdiv NaN b = Inr NaN"
| "fdiv a NaN = Inr NaN"
| "fdiv (Finite x) b = Inr (Finite 0)"
| "fdiv a b = Inr NaN"

text \<open>
  The conversion of a Python \<^verbatim>\<open>int\<close> operand of a float operation, and \<^verbatim>\<open>a / b\<close> on two
  \<^verbatim>\<open>int\<close>s: both round correctly and raise \<^verbatim>\<open>OverflowError\<close> beyond the float range.
\<close>

definition int_to_float :: "int \<Rightarrow> py_error + pyfloat" where
  "int_to_float n = (case rnd (of_int n) of Finite r \<Rightarrow> Inr (Finite r) | _ \<Rightarrow> Inl OverflowError)"

definition int_truediv :: "int \<Rightarrow> int \<Rightarrow> py_error + pyfloat" where
  "int_truediv a b =
     (if b = 0 then Inl ZeroDivisionError
      else case rnd (of_int a / of_int b) of Finite r \<Rightarrow> Inr (Finite r) | _ \<Rightarrow> Inl OverflowError)"

text \<open>\<^verbatim>\<open>int(x)\<close> on a float: truncation toward zero.\<close>

definition trunc :: "rat \<Rightarrow> int" where
  "trunc q = (if 0 \<le> q then \<lfloor>q\<rfloor> else \<lceil>q\<rceil>)"

fun py_int :: "pyfloat \<Rightarrow> py_error + int" where
  "py_int (Finite q) = Inr (trunc q)"
| "py_int NaN = Inl (ValueError NanToInt)"
| "py_int a = Inl OverflowError"

text \<open>\<^verbatim>\<open>min(a, b)\<close>: the first argument unless the second is smaller.\<close>

fun flt :: "pyfloat \<Rightarrow> pyfloat \<Rightarrow> bool" where
  "flt (Finite x) (Finite y) = (x < y)"
| "flt NaN b = False"
| "flt a NaN = False"
| "flt NInf b = (b \<noteq> NInf)"
| "flt a PInf = (a \<noteq> PInf)"
| "flt a b = False"

definition fmin :: "pyfloat \<Rightarrow> pyfloat \<Rightarrow> pyfloat" where
  "fmin a b = (if flt b a then b else a)"

text \<open>Sequencing of steps that can raise.\<close>

definition ebind :: "'e + 'a \<Rightarrow> ('a \<Rightarrow> 'e + 'b) \<Rightarrow> 'e + 'b" where
  "ebind r f = (case r of Inl e \<Rightarrow> Inl e | Inr v \<Rightarrow> f v)"

section \<open>The coordinate-to-pixel transform\<close>

text \<open>
  Lines 67 and 68 are the same expression on index 0 with the width and on index 1 with
  the height: \<^verbatim>\<open>int((v - left_top[i]) / (right_bottom[i] - left_top[i]) * extent)\<close>,
  evaluated left to right.
\<close>

definition pixel_axis :: "pyfloat \<Rightarrow> pyfloat list \<Rightarrow> pyfloat list \<Rightarrow> nat \<Rightarrow> nat \<Rightarrow> py_error + int" where
  "pixel_axis v left_top right_bottom i extent =
     ebind (item left_top i) (\<lambda>a.
     ebind (item right_bottom i) (\<lambda>b.
     ebind (item left_top i) (\<lambda>c.
     ebind (fdiv (fsub v a) (fsub b c)) (\<lambda>q.
     ebind (int_to_float (int extent)) (\<lambda>w.
     py_int (fmul q w))))))"

text \<open>Lines 63 to 69.\<close>

definition convert_to_pixel :: "store \<Rightarrow> mapper \<Rightarrow> pyfloat \<Rightarrow> pyfloat \<Rightarrow> py_error + (int \<times> int)" where
  "convert_to_pixel s m lon lat =
     (let im = s ! original_image m in
      case corner_points m of
        [left_bottom, left_top, right_top, right_bottom] \<Rightarrow>
          ebind (pixel_axis lon left_top right_bottom 0 (width im)) (\<lambda>x.
          ebind (pixel_axis lat left_top right_bottom 1 (height im)) (\<lambda>y.
          Inr (x, y)))
      | _ \<Rightarrow> Inl (ValueError UnpackMismatch))"

section \<open>Display scaling\<close>

type_synonym pixels = "nat \<Rightarrow> nat \<Rightarrow> pixel"
type_synonym color = "int \<times> int \<times> int"

text \<open>
  The OpenCV primitives are parameters.  \<open>resize im (w, h)\<close> is the pixel content that
  \<^verbatim>\<open>cv2.resize(im, (w, h), interpolation=cv2.INTER_AREA)\<close> computes for a non-empty target
  size, \<open>circle im (x, y) radius color\<close> the content of \<open>im\<close> after
  \<^verbatim>\<open>cv2.circle(im, (x, y), radius, color, -1)\<close>; each may raise.
\<close>

type_synonym resize_fn = "image \<Rightarrow> nat \<times> nat \<Rightarrow> py_error + pixels"
type_synonym circle_fn = "image \<Rightarrow> int \<times> int \<Rightarrow> int \<Rightarrow> color \<Rightarrow> py_error + pixels"

text \<open>
  \<^verbatim>\<open>cv2.resize\<close> with a target size \<open>(w, h)\<close> and no scale factors: OpenCV rejects an empty
  source and a target size with a component that is not positive; the result has \<open>h\<close>
  rows and \<open>w\<close> columns.
\<close>

definition cv2_resize :: "resize_fn \<Rightarrow> image \<Rightarrow> int \<times> int \<Rightarrow> py_error + image" where
  "cv2_resize resize im dsize =
     (case dsize of (w, h) \<Rightarrow>
        if height im = 0 \<or> width im = 0 \<or> w \<le> 0 \<or> h \<le> 0 then Inl Cv2Error
        else ebind (resize im (nat w, nat h)) (\<lambda>p.
             Inr \<lparr> height = nat h, width = nat w, pix = p \<rparr>))"

text \<open>Line 80: \<^verbatim>\<open>np.ones((h, w, 3), dtype=np.uint8) * 128\<close>.\<close>

definition gray :: pixel where "gray = (128, 128, 128)"

definition gray_canvas :: "int \<Rightarrow> int \<Rightarrow> py_error + image" where
  "gray_canvas h w =
     (if h < 0 \<or> w < 0 then Inl (ValueError NegativeDimensions)
      else Inr \<lparr> height = nat h, width = nat w, pix = (\<lambda>r c. gray) \<rparr>)"

text \<open>
  The bounds that Python gives a slice \<^verbatim>\<open>a:b\<close> of a sequence of length \<open>n\<close>: a negative index
  counts from the end, and both are clipped to the sequence.
\<close>

definition slice_index :: "nat \<Rightarrow> int \<Rightarrow> nat" where
  "slice_index n i = (if i < 0 then nat (max (i + int n) 0) else min (nat i) n)"

definition slice_bounds :: "nat \<Rightarrow> int \<Rightarrow> int \<Rightarrow> nat \<times> nat" where
  "slice_bounds n a b = (slice_index n a, slice_index n b - slice_index n a)"

text \<open>
  Line 86: \<^verbatim>\<open>dst[y0:y1, x0:x1] = src\<close>.  numpy broadcasts \<open>src\<close> to the shape of the selected
  region: on each axis the lengths agree or \<open>src\<close> has length one, and it raises
  \<^verbatim>\<open>ValueError\<close> otherwise.
\<close>

definition broadcastable :: "nat \<Rightarrow> nat \<Rightarrow> bool" where
  "broadcastable n len = (n = len \<or> n = 1)"

definition paste :: "image \<Rightarrow> int \<Rightarrow> int \<Rightarrow> int \<Rightarrow> int \<Rightarrow> image \<Rightarrow> py_error + image" where
  "paste dst y0 y1 x0 x1 src =
     (case slice_bounds (height dst) y0 y1 of (sy, ly) \<Rightarrow>
      case slice_bounds (width dst) x0 x1 of (sx, lx) \<Rightarrow>
        if broadcastable (height src) ly \<and> broadcastable (width src) lx then
          Inr (dst \<lparr> pix := (\<lambda>r c.
                 if sy \<le> r \<and> r < sy + ly \<and> sx \<le> c \<and> c < sx + lx
                 then pix src (if height src = 1 then 0 else r - sy)
                              (if width src = 1 then 0 else c - sx)
                 else pix dst r c) \<rparr>)
        else Inl (ValueError BroadcastMismatch))"

text \<open>Lines 71 to 87; the arithmetic on the sizes is Python's, in the order of the source.\<close>

definition resize_with_padding :: "resize_fn \<Rightarrow> mapper \<Rightarrow> image \<Rightarrow> py_error + image" where
  "resize_with_padding resize m im =
     (case display_size m of (target_width, target_height) \<Rightarrow>
      let img_height = int (height im); img_width = int (width im) in
      ebind (int_truediv target_width img_width) (\<lambda>sx.
      ebind (int_truediv target_height img_height) (\<lambda>sy.
      let scale = fmin sx sy in
      ebind (int_to_float img_width) (\<lambda>fw.
      ebind (py_int (fmul fw scale)) (\<lambda>new_width.
      ebind (int_to_float img_height) (\<lambda>fh.
      ebind (py_int (fmul fh scale)) (\<lambda>new_height.
      ebind (gray_canvas target_height target_width) (\<lambda>display_img.
      ebind (cv2_resize resize im (new_width, new_height)) (\<lambda>resized_img.
      let x_offset = (target_width - new_width) div 2;
          y_offset = (target_height - new_height) div 2
      in paste display_img y_offset (y_offset + new_height)
               x_offset (x_offset + new_width) resized_img)))))))))"

section \<open>Drawing\<close>

text \<open>
  Lines 99 to 102: the loop over the coordinates, drawing into the array at address \<open>a\<close>.
  \<^verbatim>\<open>cv2.circle\<close> writes into the array it is given, which keeps its shape.  The store is
  returned also when a step raises.
\<close>

fun draw_points :: "circle_fn \<Rightarrow> mapper \<Rightarrow> addr \<Rightarrow> (pyfloat \<times> pyfloat) list \<Rightarrow> color \<Rightarrow> int
    \<Rightarrow> store \<Rightarrow> (py_error + unit) \<times> store" where
  "draw_points circle m a [] color size' s = (Inr (), s)"
| "draw_points circle m a ((lon, lat) # coordinates) color size' s =
     (case convert_to_pixel s m lon lat of
        Inl e \<Rightarrow> (Inl e, s)
      | Inr (x, y) \<Rightarrow>
          if 0 \<le> x \<and> x < int (width (s ! a)) \<and> 0 \<le> y \<and> y < int (height (s ! a)) then
            (case circle (s ! a) (x, y) size' color of
               Inl e \<Rightarrow> (Inl e, s)
             | Inr p \<Rightarrow> draw_points circle m a coordinates color size' (s[a := (s ! a)\<lparr>pix := p\<rparr>]))
          else draw_points circle m a coordinates color size' s)"

text \<open>\<^verbatim>\<open>cv2.cvtColor(img, cv2.COLOR_BGR2RGB)\<close>: a new array with the channels reversed.\<close>

definition bgr2rgb :: "image \<Rightarrow> image" where
  "bgr2rgb im = im \<lparr> pix := (\<lambda>r c. case pix im r c of (b, g, r') \<Rightarrow> (r', g, b)) \<rparr>"

text \<open>
  Lines 89 to 107.  The result is the address of the annotated copy together with the
  image handed to the viewer, if any.
\<close>

definition draw :: "circle_fn \<Rightarrow> resize_fn \<Rightarrow> mapper \<Rightarrow> (pyfloat \<times> pyfloat) list \<Rightarrow> color \<Rightarrow> int
    \<Rightarrow> bool \<Rightarrow> store \<Rightarrow> (py_error + (addr \<times> image option)) \<times> store" where
  "draw circle resize m coordinates color size' show s =
     (case alloc s (s ! original_image m) of (result_image, s1) \<Rightarrow>
      case draw_points circle m result_image coordinates color size' s1 of
        (Inl e, s2) \<Rightarrow> (Inl e, s2)
      | (Inr u, s2) \<Rightarrow>
          if show then
            (case resize_with_padding resize m (s2 ! result_image) of
               Inl e \<Rightarrow> (Inl e, s2)
             | Inr display_img \<Rightarrow> (Inr (result_image, Some (bgr2rgb display_img)), s2))
          else (Inr (result_image, None), s2))"

text \<open>A sequence of calls of \<open>draw\<close> on one mapper; a call that raises does not stop the next.\<close>

fun draw_calls :: "circle_fn \<Rightarrow> resize_fn \<Rightarrow> mapper
    \<Rightarrow> ((pyfloat \<times> pyfloat) list \<times> color \<times> int \<times> bool) list \<Rightarrow> store \<Rightarrow> store" where
  "draw_calls circle resize m [] s = s"
| "draw_calls circle resize m ((coordinates, color, size', show) # calls) s =
     draw_calls circle resize m calls (snd (draw circle resize m coordinates color size' show s))"

section \<open>Vocabulary of the properties\<close>

definition count_ext :: "ustr \<Rightarrow> ustr list \<Rightarrow> nat" where
  "count_ext ext files = length (filter (\<lambda>f. endswith f ext) files)"

definition marked_lines :: "ustr list \<Rightarrow> ustr list" where
  "marked_lines lines = filter (contains marker) lines"

fun succeeds :: "'e + 'a \<Rightarrow> bool" where
  "succeeds (Inl e) = False"
| "succeeds (Inr v) = True"

text \<open>
  The calibration file: every field of every marked line is accepted by \<^verbatim>\<open>float\<close>; the
  points that the marked lines denote; every marked line has at least, or more than, two
  fields.
\<close>

definition all_parse :: "(ustr \<Rightarrow> pyfloat option) \<Rightarrow> ustr list \<Rightarrow> bool" where
  "all_parse pf lines = list_all (\<lambda>l. list_all (\<lambda>f. pf f \<noteq> None) (fields l)) (marked_lines lines)"

definition parsed_points :: "(ustr \<Rightarrow> pyfloat option) \<Rightarrow> ustr list \<Rightarrow> pyfloat list list" where
  "parsed_points pf lines = map (\<lambda>l. map (\<lambda>f. the (pf f)) (fields l)) (marked_lines lines)"

definition two_fields :: "ustr list \<Rightarrow> bool" where
  "two_fields lines = list_all (\<lambda>l. 2 \<le> length (fields l)) (marked_lines lines)"

definition extra_fields :: "ustr list \<Rightarrow> bool" where
  "extra_fields lines = list_all (\<lambda>l. 2 < length (fields l)) (marked_lines lines)"

text \<open>A mapper whose points are cut down to their first two fields.\<close>

definition first_two :: "mapper \<Rightarrow> mapper" where
  "first_two m = m \<lparr> corner_points := map (take 2) (corner_points m) \<rparr>"

text \<open>
  The formula of the specification for one axis,
  \<open>conv ((v - lo) / (hi - lo) * extent)\<close>, in float arithmetic; \<open>conv\<close> is the conversion
  of the finite float to an integer.
\<close>

definition formula_axis :: "(rat \<Rightarrow> int) \<Rightarrow> pyfloat \<Rightarrow> pyfloat \<Rightarrow> pyfloat \<Rightarrow> nat \<Rightarrow> py_error + int" where
  "formula_axis conv v lo hi extent =
     ebind (fdiv (fsub v lo) (fsub hi lo)) (\<lambda>q.
     ebind (int_to_float (int extent)) (\<lambda>w.
       case fmul q w of
         Finite r \<Rightarrow> Inr (conv r)
       | NaN \<Rightarrow> Inl (ValueError NanToInt)
       | _ \<Rightarrow> Inl OverflowError))"

definition formula :: "(rat \<Rightarrow> int) \<Rightarrow> pyfloat \<times> pyfloat \<Rightarrow> pyfloat \<times> pyfloat \<Rightarrow> nat \<times> nat
    \<Rightarrow> pyfloat \<Rightarrow> pyfloat \<Rightarrow> py_error + (int \<times> int)" where
  "formula conv left_top right_bottom shape lon lat =
     ebind (formula_axis conv lon (fst left_top) (fst right_bottom) (snd shape)) (\<lambda>x.
     ebind (formula_axis conv lat (snd left_top) (snd right_bottom) (fst shape)) (\<lambda>y.
     Inr (x, y)))"




text \<open>Python's \<^verbatim>\<open>==\<close> on floats (a not-a-number equals nothing), and the infinite floats.\<close>

fun py_eq :: "pyfloat \<Rightarrow> pyfloat \<Rightarrow> bool" where
  "py_eq NaN b = False"
| "py_eq a NaN = False"
| "py_eq a b = (a = b)"



text \<open>
  Display scaling in the words of the specification: the uniform factor
  \<open>min (tw / w, th / h)\<close> in float arithmetic, a side scaled by it and truncated, and the
  canvas of the target size that is mid-gray except for the resized image \<open>r\<close>, placed at
  the offsets \<open>((tw - width r) div 2, (th - height r) div 2)\<close>.
\<close>

definition scale_factor :: "nat \<Rightarrow> nat \<Rightarrow> image \<Rightarrow> pyfloat" where
  "scale_factor tw th im =
     fmin (rnd (of_nat tw / of_nat (width im))) (rnd (of_nat th / of_nat (height im)))"

definition scaled :: "pyfloat \<Rightarrow> nat \<Rightarrow> int" where
  "scaled sc n = (case fmul (Finite (of_nat n)) sc of Finite p \<Rightarrow> trunc p | _ \<Rightarrow> 0)"

definition letterbox :: "nat \<Rightarrow> nat \<Rightarrow> image \<Rightarrow> image" where
  "letterbox tw th r =
     \<lparr> height = th, width = tw,
       pix = (\<lambda>row col.
         if (th - height r) div 2 \<le> row \<and> row < (th - height r) div 2 + height r \<and>
            (tw - width r) div 2 \<le> col \<and> col < (tw - width r) div 2 + width r
         then pix r (row - (th - height r) div 2) (col - (tw - width r) div 2)
         else gray) \<rparr>"

section \<open>Sample inputs\<close>

text \<open>
  A fragment of the builtin \<^verbatim>\<open>float\<close> for the samples: on a string of one to fifteen ASCII
  digits it returns the number they denote, which is a binary64 value, as \<^verbatim>\<open>float\<close> does.
\<close>

fun digits_value :: "ustr \<Rightarrow> nat \<Rightarrow> nat option" where
  "digits_value [] acc = Some acc"
| "digits_value (c # cs) acc =
     (if 48 \<le> c \<and> c \<le> 57 then digits_value cs (10 * acc + (c - 48)) else None)"

definition digit_float :: "ustr \<Rightarrow> pyfloat option" where
  "digit_float f =
     (if f = [] \<or> 15 < length f then None
      else map_option (\<lambda>n. Finite (of_nat n)) (digits_value f 0))"

definition black :: image where
  "black = \<lparr> height = 3000, width = 4000, pix = (\<lambda>r c. (0, 0, 0)) \<rparr>"

text \<open>The folder \<^verbatim>\<open>map\<close> with \<^verbatim>\<open>a.png\<close>, \<^verbatim>\<open>b.png\<close> and \<^verbatim>\<open>c.txt\<close>.\<close>

definition map_dir :: ustr where "map_dir = [109, 97, 112]"
definition a_png :: ustr where "a_png = [97, 46, 112, 110, 103]"
definition b_png :: ustr where "b_png = [98, 46, 112, 110, 103]"
definition c_txt :: ustr where "c_txt = [99, 46, 116, 120, 116]"

text \<open>
  Calibration lines: the marker, a full-width colon and the fields, for the corners
  \<open>(10, 20)\<close>, \<open>(10, 40)\<close>, \<open>(30, 40)\<close>, \<open>(30, 20)\<close>, with a heading line before them.
\<close>

definition cal_line :: "ustr \<Rightarrow> ustr" where
  "cal_line fs = marker @ [fw_colon] @ fs @ [10]"

definition heading :: ustr where "heading = [35, 32, 109, 97, 112, 10]"

definition four_lines :: "ustr list" where
  "four_lines = [heading,
     cal_line [49, 48, 44, 50, 48], cal_line [49, 48, 44, 52, 48],
     cal_line [51, 48, 44, 52, 48], cal_line [51, 48, 44, 50, 48]]"

definition two_png_env :: env where
  "two_png_env = \<lparr> listdir = [a_png, b_png, c_txt],
                    imread = (\<lambda>p. if p = path_join map_dir b_png then Some black else None),
                    readlines = (\<lambda>p. if p = path_join map_dir c_txt then four_lines else []) \<rparr>"

text \<open>
  The same folder with one \<^verbatim>\<open>.png\<close> file, and calibration files with three marked lines,
  with a field that is no number, and with three fields on each marked line.
\<close>

definition three_lines :: "ustr list" where
  "three_lines = [heading,
     cal_line [49, 48, 44, 50, 48], cal_line [49, 48, 44, 52, 48],
     cal_line [51, 48, 44, 52, 48]]"

definition bad_lines :: "ustr list" where
  "bad_lines = [heading,
     cal_line [49, 48, 44, 50, 48], cal_line [49, 48, 44, 120],
     cal_line [51, 48, 44, 52, 48], cal_line [51, 48, 44, 50, 48]]"

definition long_lines :: "ustr list" where
  "long_lines = [heading,
     cal_line [49, 48, 44, 50, 48, 44, 55], cal_line [49, 48, 44, 52, 48, 44, 55],
     cal_line [51, 48, 44, 52, 48, 44, 55], cal_line [51, 48, 44, 50, 48, 44, 55]]"

definition folder_with :: "ustr list \<Rightarrow> env" where
  "folder_with lines = \<lparr> listdir = [a_png, c_txt],
                          imread = (\<lambda>p. if p = path_join map_dir a_png then Some black else None),
                          readlines = (\<lambda>p. if p = path_join map_dir c_txt then lines else []) \<rparr>"

text \<open>The mapper that construction returns on the folder with the four-line file.\<close>

definition sample_mapper :: mapper where
  "sample_mapper = \<lparr> folder_path = map_dir, display_size = (1920, 1080),
       image_path = path_join map_dir a_png, txt_path = path_join map_dir c_txt,
       corner_points = [[Finite 10, Finite 20], [Finite 10, Finite 40],
                        [Finite 30, Finite 40], [Finite 30, Finite 20]],
       original_image = 0,
       lon_range = (Finite 10, Finite 30), lat_range = (Finite 20, Finite 40) \<rparr>"


text \<open>
  The scenario of the specification: a 4000 x 3000 image with the corners
  \<open>(117.60, 35.99)\<close>, \<open>(117.60, 36.01)\<close>, \<open>(117.65, 36.01)\<close>, \<open>(117.65, 35.99)\<close>, each decimal
  number being the float nearest to it.
\<close>

definition scenario :: mapper where
  "scenario = \<lparr> folder_path = map_dir, display_size = (1920, 1080),
       image_path = path_join map_dir a_png, txt_path = path_join map_dir c_txt,
       corner_points = [[rnd (11760 / 100), rnd (3599 / 100)], [rnd (11760 / 100), rnd (3601 / 100)],
                        [rnd (11765 / 100), rnd (3601 / 100)], [rnd (11765 / 100), rnd (3599 / 100)]],
       original_image = 0,
       lon_range = (rnd (11760 / 100), rnd (11765 / 100)),
       lat_range = (rnd (3599 / 100), rnd (3601 / 100)) \<rparr>"

text \<open>
  A calibration file whose left-top and right-bottom corners share the longitude 10, and
  the mapper that construction returns on it.
\<close>

definition flat_lines :: "ustr list" where
  "flat_lines = [heading,
     cal_line [49, 48, 44, 50, 48], cal_line [49, 48, 44, 52, 48],
     cal_line [49, 48, 44, 52, 48], cal_line [49, 48, 44, 50, 48]]"


text \<open>
  Instances of the OpenCV primitives for the samples: a filled disc of the saturated
  colour, rejected when the radius is negative, and a nearest-neighbour resize.
\<close>

definition saturate :: "int \<Rightarrow> nat" where
  "saturate c = nat (max 0 (min 255 c))"

definition disc_circle :: circle_fn where
  "disc_circle im c radius color =
     (case c of (cx, cy) \<Rightarrow> case color of (b, g, r) \<Rightarrow>
        if radius < 0 then Inl Cv2Error
        else Inr (\<lambda>row col.
               if (int col - cx)\<^sup>2 + (int row - cy)\<^sup>2 \<le> radius\<^sup>2
               then (saturate b, saturate g, saturate r) else pix im row col))"

definition nearest_resize :: resize_fn where
  "nearest_resize im dsize =
     (case dsize of (w, h) \<Rightarrow> Inr (\<lambda>row col. pix im (row * height im div h) (col * width im div w)))"

text \<open>
  Two calls of \<open>draw\<close>: the coordinates \<open>(20, 30)\<close>, inside the image of the sample mapper,
  and \<open>(50, 30)\<close>, to the right of it.
\<close>

definition sample_coordinates :: "(pyfloat \<times> pyfloat) list" where
  "sample_coordinates = [(Finite 20, Finite 30), (Finite 50, Finite 30)]"

definition sample_calls :: "((pyfloat \<times> pyfloat) list \<times> color \<times> int \<times> bool) list" where
  "sample_calls = [([(Finite 20, Finite 30)], (0, 0, 255), 5, False),
                   (sample_coordinates, (0, 255, 0), 5, True)]"


text \<open>
  A calibration file whose left-top longitude is the string \<^verbatim>\<open>inf\<close>, which \<^verbatim>\<open>float\<close> reads as
  the positive infinity, the fragment of \<^verbatim>\<open>float\<close> that reads it, and the mapper that
  construction returns on it.
\<close>

definition inf_float :: "ustr \<Rightarrow> pyfloat option" where
  "inf_float f = (if f = [105, 110, 102] then Some PInf else digit_float f)"

definition inf_lines :: "ustr list" where
  "inf_lines = [heading,
     cal_line [49, 48, 44, 50, 48], cal_line [105, 110, 102, 44, 52, 48],
     cal_line [51, 48, 44, 52, 48], cal_line [51, 48, 44, 50, 48]]"

definition inf_mapper :: mapper where
  "inf_mapper = \<lparr> folder_path = map_dir, display_size = (1920, 1080),
       image_path = path_join map_dir a_png, txt_path = path_join map_dir c_txt,
       corner_points = [[Finite 10, Finite 20], [PInf, Finite 40],
                        [Finite 30, Finite 40], [Finite 30, Finite 20]],
       original_image = 0,
       lon_range = (PInf, Finite 30), lat_range = (Finite 20, Finite 40) \<rparr>"

text \<open>A panoramic strip, 4000 pixels wide and one pixel high.\<close>

definition strip_image :: image where
  "strip_image = \<lparr> height = 1, width = 4000, pix = (\<lambda>r c. (0, 0, 0)) \<rparr>"

section \<open>File discovery\<close>

lemma scan_folder_fst:
  "fst (scan_folder d files (ip, tp)) = None \<longleftrightarrow>
     ip = None \<and> (\<forall>f \<in> set files. \<not> endswith f dot_png)"
  by (induction files arbitrary: ip tp) auto

lemma endswith_png_not_txt: "endswith f dot_png \<Longrightarrow> \<not> endswith f dot_txt"
  by (auto simp: endswith_def dot_png_def dot_txt_def)

lemma scan_folder_snd:
  "snd (scan_folder d files (ip, tp)) = None \<longleftrightarrow>
     tp = None \<and> (\<forall>f \<in> set files. \<not> endswith f dot_txt)"
  by (induction files arbitrary: ip tp) (auto dest: endswith_png_not_txt)

text \<open>
  Of several candidates the loop keeps the one listed last (a name ending in \<^verbatim>\<open>.png\<close> is
  never taken as the text file).
\<close>

lemma scan_folder_last:
  "scan_folder d files (ip, tp) =
     (case filter (\<lambda>f. endswith f dot_png) files of
        [] \<Rightarrow> ip | xs \<Rightarrow> Some (path_join d (last xs)),
      case filter (\<lambda>f. \<not> endswith f dot_png \<and> endswith f dot_txt) files of
        [] \<Rightarrow> tp | xs \<Rightarrow> Some (path_join d (last xs)))"
  by (induction files arbitrary: ip tp) (auto split: list.splits)

lemma path_join_nonempty: "f \<noteq> [] \<Longrightarrow> path_join d f \<noteq> []"
  by (simp add: path_join_def)

lemma endswith_nonempty: "endswith f dot_png \<or> endswith f dot_txt \<Longrightarrow> f \<noteq> []"
  by (auto simp: endswith_def dot_png_def dot_txt_def)

lemma scan_folder_truthy:
  "scan_folder d files (ip, tp) = (ip', tp') \<Longrightarrow>
     (ip = None \<or> truthy ip) \<Longrightarrow> (tp = None \<or> truthy tp) \<Longrightarrow>
     (ip' = None \<or> truthy ip') \<and> (tp' = None \<or> truthy tp')"
proof (induction files arbitrary: ip tp)
  case Nil
  then show ?case by simp
next
  case (Cons f fs)
  show ?case
  proof (cases "endswith f dot_png")
    case True
    then have "truthy (Some (path_join d f))"
      using endswith_nonempty path_join_nonempty by simp
    with Cons True show ?thesis by simp
  next
    case False
    show ?thesis
    proof (cases "endswith f dot_txt")
      case True
      then have "truthy (Some (path_join d f))"
        using endswith_nonempty path_join_nonempty by simp
      with Cons \<open>\<not> endswith f dot_png\<close> True show ?thesis by simp
    next
      case nt: False
      with Cons False show ?thesis by simp
    qed
  qed
qed

lemma count_ext_0: "count_ext ext files = 0 \<longleftrightarrow> (\<forall>f \<in> set files. \<not> endswith f ext)"
  by (simp add: count_ext_def filter_empty_conv)

lemma find_files_fails_iff:
  "find_files d files = Inl FileNotFoundError \<longleftrightarrow>
     count_ext dot_png files = 0 \<or> count_ext dot_txt files = 0"
proof -
  obtain ip tp where st: "scan_folder d files (None, None) = (ip, tp)"
    by (cases "scan_folder d files (None, None)")
  have a: "ip = None \<longleftrightarrow> count_ext dot_png files = 0"
    using scan_folder_fst [of d files None None] st by (simp add: count_ext_0)
  have b: "tp = None \<longleftrightarrow> count_ext dot_txt files = 0"
    using scan_folder_snd [of d files None None] st by (simp add: count_ext_0)
  have c: "(ip = None \<or> truthy ip) \<and> (tp = None \<or> truthy tp)"
    using scan_folder_truthy [OF st] by simp
  show ?thesis
    using a b c by (cases ip; cases tp) (auto simp: find_files_def st)
qed

lemma find_files_error: "find_files d files = Inl e \<Longrightarrow> e = FileNotFoundError"
  by (auto simp: find_files_def split: prod.splits option.splits if_splits)

lemma map_float_error: "map_float pf fs = Inl e \<Longrightarrow> e = ValueError BadFloat"
  by (induction fs arbitrary: e) (auto split: option.splits sum.splits)

lemma read_points_error: "read_points pf lines acc = Inl e \<Longrightarrow> e = ValueError BadFloat"
  by (induction lines arbitrary: acc) (auto split: if_splits sum.splits dest: map_float_error)

lemma read_corner_points_error:
  "read_corner_points pf lines = Inl e \<Longrightarrow> e = ValueError BadFloat \<or> e = ValueError NotFourCorners"
  by (auto simp: read_corner_points_def split: sum.splits if_splits dest: read_points_error)

lemma coordinate_range_error:
  "coordinate_range ps = Inl e \<Longrightarrow> e = IndexError \<or> e = ValueError UnpackMismatch"
  by (cases ps rule: coordinate_range.cases)
     (auto simp: item_def split: sum.splits if_splits)

text \<open>
  C3, as the code has it.  Construction raises \<^verbatim>\<open>FileNotFoundError\<close> exactly when the
  folder holds no name ending in \<^verbatim>\<open>.png\<close> or no name ending in \<^verbatim>\<open>.txt\<close>; with two or
  more candidates the last one listed is used.
\<close>

theorem initialize_missing_file_iff:
  "initialize ev pf d dsize s = Inl FileNotFoundError \<longleftrightarrow>
     count_ext dot_png (listdir ev) = 0 \<or> count_ext dot_txt (listdir ev) = 0"
proof (cases "find_files d (listdir ev)")
  case (Inl e)
  then have "e = FileNotFoundError" by (rule find_files_error)
  with Inl show ?thesis
    using find_files_fails_iff [of d "listdir ev"] by (simp add: initialize_def)
next
  case (Inr paths)
  then have ok: "\<not> (count_ext dot_png (listdir ev) = 0 \<or> count_ext dot_txt (listdir ev) = 0)"
    using find_files_fails_iff [of d "listdir ev"] by simp
  have "initialize ev pf d dsize s \<noteq> Inl FileNotFoundError"
    using Inr
    by (auto simp: initialize_def split: prod.splits option.splits sum.splits
             dest: read_corner_points_error coordinate_range_error)
  with ok show ?thesis by simp
qed

text \<open>
  C3 as stated fails: a folder with two \<^verbatim>\<open>.png\<close> files and one \<^verbatim>\<open>.txt\<close> file is
  accepted, and the mapper is built on the \<^verbatim>\<open>.png\<close> listed last.
\<close>

theorem two_png_accepted:
  "count_ext dot_png (listdir two_png_env) = 2 \<and>
   count_ext dot_txt (listdir two_png_env) = 1 \<and>
   succeeds (initialize two_png_env digit_float map_dir (1920, 1080) []) \<and>
   map_sum id (image_path \<circ> fst) (initialize two_png_env digit_float map_dir (1920, 1080) [])
     = Inr (path_join map_dir b_png)"
  by (simp add: two_png_env_def count_ext_def endswith_def a_png_def b_png_def c_txt_def
      dot_png_def dot_txt_def initialize_def find_files_def path_join_def map_dir_def
      four_lines_def heading_def cal_line_def marker_def fw_colon_def comma_def fields_def
      strip_def isspace_def read_corner_points_def digit_float_def alloc_def item_def)

section \<open>Rounding to binary64\<close>

declare bitlen.simps [simp del]

lemma pow2_less_iff: "(2::rat) powi m < 2 powi n \<longleftrightarrow> m < n"
proof
  assume "(2::rat) powi m < 2 powi n"
  show "m < n"
  proof (rule ccontr)
    assume "\<not> m < n"
    then have "(2::rat) powi n \<le> 2 powi m" by (intro power_int_increasing) auto
    with \<open>(2::rat) powi m < 2 powi n\<close> show False by simp
  qed
next
  assume "m < n"
  then show "(2::rat) powi m < 2 powi n" by (intro power_int_strict_increasing) auto
qed

lemma pow2_le_iff: "(2::rat) powi m \<le> 2 powi n \<longleftrightarrow> m \<le> n"
  using pow2_less_iff [of n m] by (auto simp: not_less [symmetric])

lemma pow2_pos: "0 < (2::rat) powi n"
  by simp

lemma bitlen_pos: "0 < n \<Longrightarrow> 0 < bitlen n"
  by (simp add: bitlen.simps [of n])

lemma bitlen_bounds: "0 < n \<Longrightarrow> 2 ^ (bitlen n - 1) \<le> n \<and> n < 2 ^ bitlen n"
proof (induction n rule: bitlen.induct)
  case (1 n)
  show ?case
  proof (cases "n div 2 = 0")
    case True
    with 1 have "n = 1" by (simp add: div_eq_0_iff) 
    then show ?thesis by (simp add: bitlen.simps [of "Suc 0"] bitlen.simps [of 0])
  next
    case False
    then have pos: "0 < n div 2" by simp
    with 1 have ih: "2 ^ (bitlen (n div 2) - 1) \<le> n div 2" "n div 2 < 2 ^ bitlen (n div 2)"
      by auto
    have bl: "bitlen n = Suc (bitlen (n div 2))"
      using 1 by (simp add: bitlen.simps [of n])
    obtain k where k: "bitlen (n div 2) = Suc k"
      using bitlen_pos [OF pos] by (cases "bitlen (n div 2)") auto
    have "2 * (n div 2) \<le> n" by simp
    moreover have "n < 2 * (n div 2) + 2" by presburger
    ultimately show ?thesis using ih bl k by auto
  qed
qed

lemma floor_log2_bounds:
  assumes "0 < a"
  shows "2 powi (floor_log2 a) \<le> a \<and> a < 2 powi (floor_log2 a + 1)"
proof -
  obtain p d where pd: "quotient_of a = (p, d)" by (cases "quotient_of a")
  then have d: "0 < d" and a: "a = of_int p / of_int d"
    using quotient_of_denom_pos quotient_of_div by auto
  with assms have p: "0 < p" by (simp add: zero_less_divide_iff)
  define bp bd where "bp = bitlen (nat p)" and "bd = bitlen (nat d)"
  have nb: "2 ^ (bp - 1) \<le> nat p" "nat p < 2 ^ bp" "2 ^ (bd - 1) \<le> nat d" "nat d < 2 ^ bd"
    using bitlen_bounds [of "nat p"] bitlen_bounds [of "nat d"] p d by (auto simp: bp_def bd_def)
  have cast: "of_int z = (of_nat (nat z) :: rat)" if "0 < z" for z
    using that by simp
  have P: "(of_int p :: rat) < 2 ^ bp" and P': "(2::rat) ^ (bp - 1) \<le> of_int p"
    and D: "(2::rat) ^ (bd - 1) \<le> of_int d" and D': "(of_int d :: rat) < 2 ^ bd"
    unfolding cast [OF p] cast [OF d]
    using nb by (metis of_nat_less_iff of_nat_le_iff of_nat_numeral of_nat_power)+
  obtain kp where kp: "bp = Suc kp"
    using bitlen_pos [of "nat p"] p by (cases bp) (auto simp: bp_def)
  obtain kd where kd: "bd = Suc kd"
    using bitlen_pos [of "nat d"] d by (cases bd) (auto simp: bd_def)
  have dpos: "(0::rat) < of_int d" and ppos: "(0::rat) < of_int p" using d p by auto
  have "a \<le> of_int p / 2 ^ kd"
    unfolding a using D ppos kd by (intro divide_left_mono) (auto intro!: mult_pos_pos dpos)
  also have "\<dots> < 2 ^ bp / 2 ^ kd"
    using P by (simp add: divide_strict_right_mono)
  also have "(2::rat) ^ bp / 2 ^ kd = 2 powi (int bp - int bd + 1)"
    by (simp add: power_int_diff power_int_add kd kp)
  finally have up: "a < 2 powi (int bp - int bd + 1)" .
  have "(2::rat) powi (int bp - int bd - 1) = 2 ^ kp / 2 ^ bd"
    by (simp add: power_int_diff kd kp)
  also have "\<dots> < 2 ^ kp / of_int d"
    using D' dpos by (intro divide_strict_left_mono) (auto intro!: mult_pos_pos)
  also have "\<dots> \<le> a"
    unfolding a using P' kp dpos by (simp add: divide_right_mono)
  finally have lo: "2 powi (int bp - int bd - 1) < a" .
  show ?thesis
    using up lo pd by (auto simp: floor_log2_def Let_def bp_def bd_def not_le)
qed

lemma floor_log2_unique:
  assumes "2 powi e \<le> a" "a < 2 powi (e + 1)"
  shows "floor_log2 a = e"
proof -
  have pos: "0 < a"
    using less_le_trans [OF pow2_pos assms(1)] .
  let ?f = "floor_log2 a"
  have b: "2 powi ?f \<le> a" "a < 2 powi (?f + 1)"
    using floor_log2_bounds [OF pos] by auto
  have "(2::rat) powi e < 2 powi (?f + 1)" using assms(1) b(2) by simp
  then have 1: "e < ?f + 1" by (simp add: pow2_less_iff) 
  have "(2::rat) powi ?f < 2 powi (e + 1)" using assms(2) b(1) by simp
  then have 2: "?f < e + 1" by (simp add: pow2_less_iff)
  from 1 2 show ?thesis by simp
qed

lemma round_half_even_of_int: "round_half_even (of_int m) = m"
  by (simp add: round_half_even_def)


lemma round_half_even_near: "\<bar>x - of_int m\<bar> < 1 / 2 \<Longrightarrow> round_half_even x = m"
proof -
  assume h: "\<bar>x - of_int m\<bar> < 1 / 2"
  show ?thesis
  proof (cases "of_int m \<le> x")
    case True
    with h have "\<lfloor>x\<rfloor> = m" by (intro floor_unique) auto
    with h True show ?thesis by (simp add: round_half_even_def)
  next
    case False
    with h have "\<lfloor>x\<rfloor> = m - 1" by (intro floor_unique) auto
    with h False show ?thesis by (auto simp: round_half_even_def Let_def)
  qed
qed

lemma round_half_even_bounds:
  "of_int (round_half_even x) \<le> x + 1 / 2 \<and> x - 1 / 2 \<le> of_int (round_half_even x)"
proof -
  define f where "f = \<lfloor>x\<rfloor>"
  have "of_int f \<le> x" "x < of_int f + 1" unfolding f_def by linarith+
  then show ?thesis
    unfolding round_half_even_def Let_def f_def [symmetric]
    by (auto simp: not_less)
qed

lemma round_half_even_mono_ge: "of_int n \<le> x \<Longrightarrow> n \<le> round_half_even x"
proof -
  assume "of_int n \<le> x"
  then have "n \<le> \<lfloor>x\<rfloor>" by (simp add: le_floor_iff)
  then show ?thesis by (auto simp: round_half_even_def Let_def)
qed

text \<open>The result of rounding a positive number, before the overflow test.\<close>

lemma rnd_pos:
  assumes "0 < a"
  shows "rnd a = (let e = max (floor_log2 a) (- 1022); u = 2 powi (e - 52);
                      r = of_int (round_half_even (a / u)) * u
                  in if 2 powi 1024 \<le> r then PInf else Finite r)"
  using assms by (simp add: rnd_def Let_def)

lemma rnd_neg:
  assumes "0 < a"
  shows "rnd (- a) = (let e = max (floor_log2 a) (- 1022); u = 2 powi (e - 52);
                      r = of_int (round_half_even (a / u)) * u
                  in if 2 powi 1024 \<le> r then NInf else Finite (- r))"
  using assms by (simp add: rnd_def Let_def)

lemma rounded_below_overflow:
  assumes "0 < a" "a < 2 powi 1023" "e = max (floor_log2 a) (- 1022)"
  shows "rat_of_int (round_half_even (a / 2 powi (e - 52))) * 2 powi (e - 52) < 2 powi 1024"
proof -
  let ?u = "(2::rat) powi (e - 52)"
  have "2 powi (floor_log2 a) \<le> a" using floor_log2_bounds [OF assms(1)] by simp
  with assms(2) have "(2::rat) powi (floor_log2 a) < 2 powi 1023" by simp
  then have "floor_log2 a < 1023" by (simp only: pow2_less_iff)
  with assms(3) have e: "e \<le> 1022" by simp
  have upos: "0 < ?u" by simp
  have "of_int (round_half_even (a / ?u)) * ?u \<le> (a / ?u + 1 / 2) * ?u"
    using round_half_even_bounds [of "a / ?u"] upos by (intro mult_right_mono) auto
  also have "\<dots> = a + ?u / 2" using upos by (simp add: field_simps)
  also have "?u \<le> 2 powi 1023" using e by (simp only: pow2_le_iff)
  then have "a + ?u / 2 < 2 powi 1023 + 2 powi 1023" using assms(2) upos by linarith
  also have "\<dots> = (2::rat) powi 1024" by simp
  finally show ?thesis .
qed

lemma rnd_pos_eval:
  assumes "2 powi e \<le> a" "a < 2 powi (e + 1)" "e \<le> 1022" "e' = max e (- 1022)"
    and "\<bar>a / 2 powi (e' - 52) - of_int m\<bar> < 1 / 2"
  shows "rnd a = Finite (of_int m * 2 powi (e' - 52))"
    and "rnd (- a) = Finite (- (of_int m * 2 powi (e' - 52)))"
proof -
  have pos: "0 < a" using less_le_trans [OF pow2_pos assms(1)] .
  have fl: "floor_log2 a = e" using assms(1,2) by (rule floor_log2_unique)
  have "(2::rat) powi (e + 1) \<le> 2 powi 1023" using assms(3) by (simp only: pow2_le_iff)
  with assms(2) have small: "a < 2 powi 1023" by simp
  have m: "round_half_even (a / 2 powi (e' - 52)) = m"
    using assms(5) by (rule round_half_even_near)
  have "rat_of_int m * 2 powi (e' - 52) < (2::rat) powi 1024"
    using rounded_below_overflow [OF pos small, of e'] fl assms(4) m by simp
  then have no: "\<not> (2::rat) powi 1024 \<le> of_int m * 2 powi (e' - 52)" by simp
  show "rnd a = Finite (of_int m * 2 powi (e' - 52))"
    using fl assms(4) m no by (simp only: rnd_pos [OF pos] Let_def if_False)
  show "rnd (- a) = Finite (- (of_int m * 2 powi (e' - 52)))"
    using fl assms(4) m no by (simp only: rnd_neg [OF pos] Let_def if_False)
qed

lemma rnd_finite:
  assumes "\<bar>q\<bar> < 2 powi 1023"
  shows "\<exists>r. rnd q = Finite r"
proof (cases "q = 0")
  case True
  then show ?thesis by (simp add: rnd_def)
next
  case False
  then have pos: "0 < \<bar>q\<bar>" by simp
  have "\<not> 2 powi 1024 \<le> rat_of_int (round_half_even (\<bar>q\<bar> / 2 powi (max (floor_log2 \<bar>q\<bar>) (- 1022) - 52)))
      * (2::rat) powi (max (floor_log2 \<bar>q\<bar>) (- 1022) - 52)"
    using rounded_below_overflow [OF pos assms refl] by (simp only: not_le)
  then show ?thesis using False by (simp only: rnd_def Let_def if_False) auto
qed

text \<open>A number \<open>m * 2 ^ k\<close> with a 53-bit \<open>m\<close> and \<open>k\<close> in range is a binary64 value.\<close>

lemma rnd_exact_pos:
  assumes "0 < m" "m < 2 ^ 53" "- 1074 \<le> k" "of_int m * 2 powi k < (2::rat) powi 1024"
  shows "rnd (of_int m * 2 powi k) = Finite (of_int m * 2 powi k)"
    and "rnd (- (of_int m * 2 powi k)) = Finite (- (of_int m * 2 powi k))"
proof -
  define a :: rat where "a = of_int m * 2 powi k"
  have pos: "0 < a" using assms(1) by (simp add: a_def)
  define e where "e = max (floor_log2 a) (- 1022)"
  let ?u = "(2::rat) powi (e - 52)"
  have "e - 52 \<le> k"
  proof (cases "floor_log2 a \<le> - 1022")
    case True
    then show ?thesis using assms(3) by (simp add: e_def)
  next
    case False
    then have ee: "e = floor_log2 a" by (simp add: e_def)
    have "a < 2 ^ 53 * 2 powi k"
      unfolding a_def using assms(2) by (intro mult_strict_right_mono) (auto simp flip: of_int_less_iff)
    also have "\<dots> = 2 powi (53 + k)" by (simp add: power_int_add)
    finally have "(2::rat) powi e < 2 powi (53 + k)"
      using floor_log2_bounds [OF pos] ee by simp
    then show ?thesis by (simp only: pow2_less_iff)
  qed
  then obtain j :: nat where j: "k = e - 52 + int j"
    by (metis zle_iff_zadd)
  have "a / ?u = of_int (m * 2 ^ j)"
    by (simp add: a_def j power_int_add)
  then have "round_half_even (a / ?u) = m * 2 ^ j"
    by (simp only: round_half_even_of_int)
  then have r: "of_int (round_half_even (a / ?u)) * ?u = a"
    by (simp add: a_def j power_int_add)
  have no: "\<not> 2 powi 1024 \<le> a" using assms(4) by (simp add: a_def)
  show "rnd (of_int m * 2 powi k) = Finite (of_int m * 2 powi k)"
    using r no unfolding a_def [symmetric] by (simp add: rnd_pos [OF pos] Let_def e_def)
  show "rnd (- (of_int m * 2 powi k)) = Finite (- (of_int m * 2 powi k))"
    using r no unfolding a_def [symmetric] by (simp add: rnd_neg [OF pos] Let_def e_def)
qed

lemma rnd_of_nat:
  assumes "n < 2 ^ 53"
  shows "rnd (of_nat n) = Finite (of_nat n)"
proof (cases "n = 0")
  case True
  then show ?thesis by (simp add: rnd_def)
next
  case False
  have "(of_int (int n) :: rat) < 2 ^ 53"
    using assms by (metis of_int_of_nat_eq of_nat_less_iff of_nat_numeral of_nat_power)
  also have "\<dots> < 2 powi 1024" by simp
  finally have "of_int (int n) * 2 powi 0 < (2::rat) powi 1024" by simp
  moreover have "int n < 2 ^ 53" using assms by (metis of_nat_less_iff of_nat_numeral of_nat_power)
  ultimately show ?thesis
    using rnd_exact_pos(1) [of "int n" 0] False by simp
qed


text \<open>Every binary64 value is a multiple of the smallest subnormal number.\<close>

lemma is_double_multiple:
  assumes "is_double q"
  shows "\<exists>n. q = of_int n * 2 powi (- 1074)"
proof (cases "q = 0")
  case True
  then have "q = of_int 0 * 2 powi (- 1074)" by simp
  then show ?thesis by blast
next
  case False
  define e where "e = max (floor_log2 \<bar>q\<bar>) (- 1022)"
  define M where "M = round_half_even (\<bar>q\<bar> / 2 powi (e - 52))"
  have "- 1074 \<le> e - 52" by (simp add: e_def)
  then obtain j :: nat where j: "e - 52 = - 1074 + int j" by (metis zle_iff_zadd)
  have "(2::rat) powi (- 1074 + int j) = 2 powi (- 1074) * 2 powi (int j)"
    by (rule power_int_add) simp
  then have u: "(2::rat) powi (e - 52) = of_int (2 ^ j) * 2 powi (- 1074)"
    unfolding j by (simp only: power_int_of_nat of_int_power of_int_numeral mult.commute)
  from assms False have "q = rat_of_int M * 2 powi (e - 52) \<or> q = - (rat_of_int M * 2 powi (e - 52))"
    unfolding is_double_def rnd_def Let_def e_def M_def
    by (auto split: if_splits)
  then have "q = of_int (M * 2 ^ j) * 2 powi (- 1074) \<or> q = of_int (- (M * 2 ^ j)) * 2 powi (- 1074)"
    unfolding u by simp
  then show ?thesis by blast
qed

lemma rnd_multiple_nonzero:
  assumes "q = of_int n * 2 powi (- 1074)" "q \<noteq> 0"
  shows "rnd q \<noteq> Finite 0"
proof -
  define a where "a = \<bar>q\<bar>"
  define e where "e = max (floor_log2 a) (- 1022)"
  let ?u = "(2::rat) powi (e - 52)"
  have pos: "0 < a" using assms(2) by (simp add: a_def)
  have "n \<noteq> 0" using assms by auto
  then have "1 \<le> \<bar>n\<bar>" by simp
  then have "(1::rat) \<le> of_int \<bar>n\<bar>" by (simp only: of_int_1_le_iff)
  then have "1 * 2 powi (- 1074) \<le> rat_of_int \<bar>n\<bar> * 2 powi (- 1074)"
    by (intro mult_right_mono) auto
  then have tiny: "2 powi (- 1074) \<le> a"
    unfolding a_def assms(1) by (simp add: abs_mult)
  have "?u \<le> a"
  proof (cases "floor_log2 a \<le> - 1022")
    case True
    then have "e - 52 = - 1074" by (simp add: e_def)
    with tiny show ?thesis by (simp only:)
  next
    case False
    then have ee: "e = floor_log2 a" by (simp add: e_def)
    have "?u \<le> 2 powi e" by (simp only: pow2_le_iff)
    also have "\<dots> \<le> a" using floor_log2_bounds [OF pos] ee by simp
    finally show ?thesis .
  qed
  then have "of_int 1 \<le> a / ?u" by (simp add: le_divide_eq)
  then have "1 \<le> round_half_even (a / ?u)" by (rule round_half_even_mono_ge)
  then have "(0::rat) < of_int (round_half_even (a / ?u))" by simp
  then have rpos: "0 < rat_of_int (round_half_even (a / ?u)) * ?u"
    by (intro mult_pos_pos) auto
  show ?thesis
    using rpos assms(2) unfolding rnd_def Let_def a_def [symmetric] e_def [symmetric]
    by (auto split: if_splits)
qed

lemma double_difference_nonzero:
  assumes "is_double x" "is_double y" "x \<noteq> y"
  shows "rnd (x - y) \<noteq> Finite 0"
proof -
  obtain n k where "x = of_int n * 2 powi (- 1074)" "y = of_int k * 2 powi (- 1074)"
    using is_double_multiple assms(1,2) by blast
  then have "x - y = of_int (n - k) * 2 powi (- 1074)"
    by (simp add: algebra_simps)
  moreover have "x - y \<noteq> 0" using assms(3) by simp
  ultimately show ?thesis by (rule rnd_multiple_nonzero)
qed

lemma rnd_exact:
  assumes "q = of_int m * 2 powi k" "\<bar>m\<bar> < 2 ^ 53" "- 1074 \<le> k" "k \<le> 970"
  shows "rnd q = Finite q"
proof -
  have "rat_of_int \<bar>m\<bar> * 2 powi k \<le> 2 ^ 53 * 2 powi k"
    using assms(2) by (intro mult_right_mono) (auto simp flip: of_int_le_iff)
  also have "\<dots> = 2 powi (53 + k)" by (simp add: power_int_add)
  also have "\<dots> < 2 powi 1024" using assms(4) by (simp only: pow2_less_iff)
  finally have b: "rat_of_int \<bar>m\<bar> * 2 powi k < 2 powi 1024" .
  consider "m = 0" | "0 < m" | "m < 0" by linarith
  then show ?thesis
  proof cases
    case 1
    then show ?thesis using assms(1) by (simp add: rnd_def)
  next
    case 2
    then show ?thesis using rnd_exact_pos(1) [of m k] assms b by simp
  next
    case 3
    then have "rnd (- (rat_of_int (- m) * 2 powi k)) = Finite (- (rat_of_int (- m) * 2 powi k))"
      using assms b by (intro rnd_exact_pos(2)) auto
    then show ?thesis using assms(1) by simp
  qed
qed

section \<open>Reading the calibration file\<close>

lemma map_float_cases:
  "map_float pf fs = (if list_all (\<lambda>f. pf f \<noteq> None) fs then Inr (map (\<lambda>f. the (pf f)) fs)
                      else Inl (ValueError BadFloat))"
  by (induction fs) (auto split: option.splits)

lemma read_points_cases:
  "read_points pf lines acc =
     (if all_parse pf lines then Inr (acc @ parsed_points pf lines) else Inl (ValueError BadFloat))"
proof (induction lines arbitrary: acc)
  case Nil
  then show ?case by (simp add: all_parse_def parsed_points_def marked_lines_def)
next
  case (Cons l ls)
  show ?case
  proof (cases "contains marker l")
    case False
    then show ?thesis using Cons [of acc]
      by (simp add: all_parse_def parsed_points_def marked_lines_def)
  next
    case True
    then show ?thesis using Cons [of "acc @ [map (\<lambda>f. the (pf f)) (fields l)]"]
      by (simp add: all_parse_def parsed_points_def marked_lines_def map_float_cases)
  qed
qed

lemma read_corner_points_cases:
  "read_corner_points pf lines =
     (if \<not> all_parse pf lines then Inl (ValueError BadFloat)
      else if length (marked_lines lines) \<noteq> 4 then Inl (ValueError NotFourCorners)
      else Inr (parsed_points pf lines))"
  by (simp add: read_corner_points_def read_points_cases parsed_points_def)

lemma length4E:
  assumes "length xs = 4"
  obtains a b c d where "xs = [a, b, c, d]"
  using assms by (auto simp: length_Suc_conv numeral_eq_Suc)

lemma coordinate_range_Inr:
  "coordinate_range ps = Inr r \<longleftrightarrow>
     (\<exists>lb lt rt rb. ps = [lb, lt, rt, rb] \<and> 2 \<le> length lb \<and> 2 \<le> length lt \<and> 1 \<le> length rb \<and>
        r = ((lt ! 0, rb ! 0), (lb ! 1, lt ! 1)))"
  by (cases ps rule: coordinate_range.cases)
     (auto simp: item_def Suc_le_eq split: if_splits)

lemma coordinate_range_not_value_error:
  "coordinate_range ps = Inl e \<Longrightarrow> length ps = 4 \<Longrightarrow> e = IndexError"
  by (cases ps rule: coordinate_range.cases) (auto simp: item_def split: if_splits)

lemma two_fields_points:
  "two_fields lines \<Longrightarrow> list_all (\<lambda>p. 2 \<le> length p) (parsed_points pf lines)"
  by (simp add: two_fields_def parsed_points_def list_all_iff)

lemma coordinate_range_succeeds:
  assumes "length ps = 4" "list_all (\<lambda>p. 2 \<le> length p) ps"
  shows "succeeds (coordinate_range ps)"
proof -
  obtain a b c d where "ps = [a, b, c, d]" using assms(1) by (rule length4E)
  then show ?thesis using assms(2) by (auto simp: item_def)
qed

text \<open>What the constructor does once the two files are found and the image is decoded.\<close>

lemma initialize_after_imread:
  assumes "find_files d (listdir ev) = Inr (ip, tp)" "imread ev ip = Some im"
  shows "initialize ev pf d dsize s =
     ebind (read_corner_points pf (readlines ev tp)) (\<lambda>points.
     ebind (coordinate_range points) (\<lambda>(lons, lats).
       Inr (\<lparr> folder_path = d, display_size = dsize, image_path = ip, txt_path = tp,
              corner_points = points, original_image = length s,
              lon_range = lons, lat_range = lats \<rparr>, s @ [im])))"
  using assms by (simp add: initialize_def alloc_def ebind_def split: sum.splits prod.splits)

text \<open>
  C4.  With the two files found and the image decoded, construction raises the
  \<^verbatim>\<open>ValueError\<close> of line 52 exactly when some field of a marked line is no float, and the
  \<^verbatim>\<open>ValueError\<close> of line 54 exactly when all fields are floats and the number of marked
  lines is not 4; with four marked lines of at least two floats each it returns a mapper.
  A failed construction is an \<open>Inl\<close> and carries no mapper.
\<close>

theorem calibration_rejected_iff:
  assumes "find_files d (listdir ev) = Inr (ip, tp)" and "imread ev ip = Some im"
  shows "(initialize ev pf d dsize s = Inl (ValueError BadFloat)
            \<longleftrightarrow> \<not> all_parse pf (readlines ev tp)) \<and>
         (initialize ev pf d dsize s = Inl (ValueError NotFourCorners)
            \<longleftrightarrow> all_parse pf (readlines ev tp) \<and> length (marked_lines (readlines ev tp)) \<noteq> 4) \<and>
         (all_parse pf (readlines ev tp) \<and> length (marked_lines (readlines ev tp)) = 4 \<and>
          two_fields (readlines ev tp) \<longrightarrow> succeeds (initialize ev pf d dsize s))"
proof -
  let ?L = "readlines ev tp"
  note init = initialize_after_imread [OF assms, of pf dsize s]
  show ?thesis
  proof (cases "all_parse pf ?L")
    case False
    then show ?thesis by (simp add: init read_corner_points_cases ebind_def)
  next
    case ap: True
    show ?thesis
    proof (cases "length (marked_lines ?L) = 4")
      case False
      with ap show ?thesis by (simp add: init read_corner_points_cases ebind_def)
    next
      case True
      then have len: "length (parsed_points pf ?L) = 4" by (simp add: parsed_points_def)
      have no_ve: "initialize ev pf d dsize s \<noteq> Inl (ValueError v)" for v
        using ap True coordinate_range_not_value_error [OF _ len]
        by (auto simp: init read_corner_points_cases ebind_def split: sum.splits)
      have "succeeds (initialize ev pf d dsize s)" if "two_fields ?L"
        using coordinate_range_succeeds [OF len two_fields_points [OF that]] ap True
        by (auto simp: init read_corner_points_cases ebind_def split: sum.splits)
      with ap True no_ve show ?thesis by simp
    qed
  qed
qed


lemmas sample_defs =
  folder_with_def count_ext_def endswith_def a_png_def b_png_def c_txt_def
  dot_png_def dot_txt_def find_files_def path_join_def map_dir_def
  four_lines_def three_lines_def bad_lines_def long_lines_def flat_lines_def heading_def cal_line_def
  marker_def fw_colon_def comma_def fields_def strip_def isspace_def digit_float_def
  marked_lines_def all_parse_def two_fields_def extra_fields_def parsed_points_def

lemma folder_with_found:
  "find_files map_dir (listdir (folder_with L)) = Inr (path_join map_dir a_png, path_join map_dir c_txt)"
  by (simp add: folder_with_def endswith_def a_png_def c_txt_def dot_png_def dot_txt_def
      find_files_def path_join_def map_dir_def)

lemma folder_with_imread: "imread (folder_with L) (path_join map_dir a_png) = Some black"
  by (simp add: folder_with_def)

lemma folder_with_readlines: "readlines (folder_with L) (path_join map_dir c_txt) = L"
  by (simp add: folder_with_def)

theorem calibration_rejected_iff_witness:
  "succeeds (initialize (folder_with four_lines) digit_float map_dir (1920, 1080) []) \<and>
   initialize (folder_with three_lines) digit_float map_dir (1920, 1080) []
     = Inl (ValueError NotFourCorners) \<and>
   initialize (folder_with bad_lines) digit_float map_dir (1920, 1080) []
     = Inl (ValueError BadFloat)"
proof -
  note t = calibration_rejected_iff [OF folder_with_found folder_with_imread,
      of _ digit_float "(1920, 1080)" "[]", unfolded folder_with_readlines]
  have 4: "all_parse digit_float four_lines \<and> length (marked_lines four_lines) = 4 \<and>
      two_fields four_lines"
    by (simp add: sample_defs)
  have 3: "all_parse digit_float three_lines \<and> length (marked_lines three_lines) \<noteq> 4"
    by (simp add: sample_defs)
  have b: "\<not> all_parse digit_float bad_lines"
    by (simp add: sample_defs)
  show ?thesis
    using t [of four_lines] t [of three_lines] t [of bad_lines] 4 3 b by blast
qed

section \<open>The coordinate range\<close>

text \<open>
  C9.  A constructed mapper has four points, in the order left-bottom, left-top,
  right-top, right-bottom, and its accessor returns a dictionary with exactly the keys
  \<^verbatim>\<open>longitude\<close> and \<^verbatim>\<open>latitude\<close>, bound to the pairs \<open>(left_top[0], right_bottom[0])\<close> and
  \<open>(left_bottom[1], left_top[1])\<close>.  The accessor reads the two attributes set by the
  constructor; it is a function of the mapper alone, and no method assigns them again.
\<close>

theorem coordinate_range_accessor:
  assumes "initialize ev pf d dsize s = Inr (m, s')"
  shows "\<exists>lb lt rt rb. corner_points m = [lb, lt, rt, rb] \<and>
           2 \<le> length lb \<and> 2 \<le> length lt \<and> 1 \<le> length rb \<and>
           get_coordinate_range m
             = [''longitude'' \<mapsto> (lt ! 0, rb ! 0), ''latitude'' \<mapsto> (lb ! 1, lt ! 1)] \<and>
           dom (get_coordinate_range m) = {''longitude'', ''latitude''}"
proof -
  from assms obtain lons lats where
    cr: "coordinate_range (corner_points m) = Inr (lons, lats)"
    and r: "lon_range m = lons" "lat_range m = lats"
    by (auto simp: initialize_def split: sum.splits prod.splits option.splits)
  from cr obtain lb lt rt rb where
    "corner_points m = [lb, lt, rt, rb]" "2 \<le> length lb" "2 \<le> length lt" "1 \<le> length rb"
    "(lons, lats) = ((lt ! 0, rb ! 0), (lb ! 1, lt ! 1))"
    unfolding coordinate_range_Inr by blast
  then show ?thesis using r by (auto simp: get_coordinate_range_def)
qed

lemma sample_initialize:
  "initialize (folder_with four_lines) digit_float map_dir (1920, 1080) [] = Inr (sample_mapper, [black])"
  unfolding initialize_after_imread [OF folder_with_found folder_with_imread]
    folder_with_readlines
  by (simp add: read_corner_points_cases ebind_def sample_mapper_def item_def
      path_join_def map_dir_def a_png_def c_txt_def
      four_lines_def heading_def cal_line_def marker_def fw_colon_def comma_def fields_def
      strip_def isspace_def digit_float_def marked_lines_def all_parse_def parsed_points_def)

theorem coordinate_range_accessor_witness:
  "get_coordinate_range sample_mapper ''longitude'' = Some (Finite 10, Finite 30) \<and>
   get_coordinate_range sample_mapper ''latitude'' = Some (Finite 20, Finite 40) \<and>
   dom (get_coordinate_range sample_mapper) = {''longitude'', ''latitude''}"
  using coordinate_range_accessor [OF sample_initialize]
  by (auto simp: sample_mapper_def)

section \<open>Fields beyond the second\<close>

lemma item_take_2: "i < 2 \<Longrightarrow> item (take 2 xs) i = item xs i"
  by (auto simp: item_def)

lemma pixel_axis_take_2:
  "i < 2 \<Longrightarrow> pixel_axis v (take 2 lt) (take 2 rb) i n = pixel_axis v lt rb i n"
  by (simp add: pixel_axis_def item_take_2)

lemma convert_to_pixel_first_two:
  "convert_to_pixel st (first_two m) lon lat = convert_to_pixel st m lon lat"
  by (cases "corner_points m" rule: coordinate_range.cases)
     (simp_all add: convert_to_pixel_def first_two_def pixel_axis_take_2 Let_def)

lemma coordinate_range_first_two:
  "coordinate_range (corner_points (first_two m)) = coordinate_range (corner_points m)"
  by (cases "corner_points m" rule: coordinate_range.cases)
     (simp_all add: first_two_def item_take_2 cong: sum.case_cong)

lemma extra_fields_two: "extra_fields lines \<Longrightarrow> two_fields lines"
  by (auto simp: extra_fields_def two_fields_def list_all_iff)

text \<open>
  C10.  With four marked lines of more than two floats each, construction returns a mapper
  that stores every parsed field of every point, and its coordinate range and its
  transform are those of the mapper whose points are cut down to their first two fields.
\<close>

theorem extra_fields_ignored:
  assumes "find_files d (listdir ev) = Inr (ip, tp)" and "imread ev ip = Some im"
    and "length (marked_lines (readlines ev tp)) = 4"
    and "all_parse pf (readlines ev tp)"
    and "extra_fields (readlines ev tp)"
  shows "\<exists>m. initialize ev pf d dsize s = Inr (m, s @ [im]) \<and>
           corner_points m = parsed_points pf (readlines ev tp) \<and>
           list_all (\<lambda>p. 2 < length p) (corner_points m) \<and>
           coordinate_range (corner_points (first_two m)) = Inr (lon_range m, lat_range m) \<and>
           (\<forall>st lon lat. convert_to_pixel st (first_two m) lon lat = convert_to_pixel st m lon lat)"
proof -
  let ?L = "readlines ev tp"
  have len: "length (parsed_points pf ?L) = 4" using assms(3) by (simp add: parsed_points_def)
  have "succeeds (coordinate_range (parsed_points pf ?L))"
    using coordinate_range_succeeds [OF len two_fields_points [OF extra_fields_two [OF assms(5)]]] .
  then obtain lons lats where cr: "coordinate_range (parsed_points pf ?L) = Inr (lons, lats)"
    by (cases "coordinate_range (parsed_points pf ?L)") auto
  define m where "m = \<lparr> folder_path = d, display_size = dsize, image_path = ip, txt_path = tp,
      corner_points = parsed_points pf ?L, original_image = length s,
      lon_range = lons, lat_range = lats \<rparr>"
  have init: "initialize ev pf d dsize s = Inr (m, s @ [im])"
    using assms(3,4) cr
    by (simp add: initialize_after_imread [OF assms(1,2)] read_corner_points_cases ebind_def m_def)
  have stored: "list_all (\<lambda>p. 2 < length p) (corner_points m)"
    using assms(5) by (simp add: m_def extra_fields_def parsed_points_def list_all_iff)
  have "coordinate_range (corner_points (first_two m)) = Inr (lon_range m, lat_range m)"
    using cr by (simp add: coordinate_range_first_two) (simp add: m_def)
  with init stored show ?thesis
    using convert_to_pixel_first_two by (intro exI [of _ m]) (simp add: m_def)
qed

theorem extra_fields_ignored_witness:
  "length (marked_lines long_lines) = 4 \<and> extra_fields long_lines \<and>
   succeeds (initialize (folder_with long_lines) digit_float map_dir (1920, 1080) []) \<and>
   map_sum id (corner_points \<circ> fst)
       (initialize (folder_with long_lines) digit_float map_dir (1920, 1080) [])
     = Inr [[Finite 10, Finite 20, Finite 7], [Finite 10, Finite 40, Finite 7],
            [Finite 30, Finite 40, Finite 7], [Finite 30, Finite 20, Finite 7]]"
proof -
  have h: "length (marked_lines long_lines) = 4" "all_parse digit_float long_lines"
    "extra_fields long_lines"
    by (simp_all add: sample_defs)
  have p: "parsed_points digit_float long_lines
     = [[Finite 10, Finite 20, Finite 7], [Finite 10, Finite 40, Finite 7],
        [Finite 30, Finite 40, Finite 7], [Finite 30, Finite 20, Finite 7]]"
    by (simp add: sample_defs)
  from extra_fields_ignored [OF folder_with_found folder_with_imread,
      of long_lines digit_float "(1920, 1080)" "[]", unfolded folder_with_readlines, OF h]
  obtain m where "initialize (folder_with long_lines) digit_float map_dir (1920, 1080) [] = Inr (m, [] @ [black])"
    "corner_points m = parsed_points digit_float long_lines"
    by blast
  then show ?thesis using h p by simp
qed

section \<open>The transform\<close>

lemma py_int_cases:
  "py_int f = (case f of Finite r \<Rightarrow> Inr (trunc r) | NaN \<Rightarrow> Inl (ValueError NanToInt)
               | _ \<Rightarrow> Inl OverflowError)"
  by (cases f) simp_all

lemma pixel_axis_formula:
  assumes "i < length left_top" "i < length right_bottom"
  shows "pixel_axis v left_top right_bottom i n
           = formula_axis trunc v (left_top ! i) (right_bottom ! i) n"
  using assms by (simp add: pixel_axis_def formula_axis_def item_def ebind_def py_int_cases)

lemma convert_to_pixel_as_formula:
  assumes "corner_points m = [lb, lt, rt, rb]" and "2 \<le> length lt" and "2 \<le> length rb"
    and "s ! original_image m = im"
  shows "convert_to_pixel s m lon lat
           = formula trunc (lt ! 0, lt ! 1) (rb ! 0, rb ! 1) (height im, width im) lon lat"
proof -
  have l: "0 < length lt" "1 < length lt" "0 < length rb" "1 < length rb"
    using assms(2,3) by auto
  have a: "pixel_axis v lt rb 0 n = formula_axis trunc v (lt ! 0) (rb ! 0) n" for v n
    using l(1,3) by (rule pixel_axis_formula)
  have b: "pixel_axis v lt rb 1 n = formula_axis trunc v (lt ! 1) (rb ! 1) n" for v n
    using l(2,4) by (rule pixel_axis_formula)
  show ?thesis
    unfolding convert_to_pixel_def formula_def assms(1,4) Let_def
    by (simp only: a b list.case fst_conv snd_conv)
qed

text \<open>
  C1, as the code has it.  The transform is the formula of the specification evaluated in
  float arithmetic, with \<^verbatim>\<open>int\<close>, which truncates toward zero, in the place of the floor.
\<close>

theorem convert_to_pixel_formula:
  assumes "corner_points m = [lb, lt, rt, rb]" and "2 \<le> length lt" and "2 \<le> length rb"
    and "s ! original_image m = im"
  shows "convert_to_pixel s m lon lat
           = formula trunc (lt ! 0, lt ! 1) (rb ! 0, rb ! 1) (height im, width im) lon lat"
  using assms by (rule convert_to_pixel_as_formula)

lemma rnd_0: "rnd 0 = Finite 0"
  by (simp add: rnd_def)

lemma rnd_1: "rnd 1 = Finite 1"
  using rnd_exact [of 1 1 0] by simp

lemma int_to_float_nat: "n < 2 ^ 53 \<Longrightarrow> int_to_float (int n) = Inr (Finite (of_nat n))"
  using rnd_of_nat [of n] by (simp add: int_to_float_def)

lemma trunc_of_nat: "trunc (of_nat n) = int n"
  by (simp add: trunc_def)

lemma formula_axis_origin:
  assumes "fsub (Finite b) (Finite a) = Finite d" "d \<noteq> 0" "n < 2 ^ 53"
  shows "formula_axis trunc (Finite a) (Finite a) (Finite b) n = Inr 0"
  using assms
  by (simp add: formula_axis_def ebind_def rnd_0 int_to_float_nat trunc_def)

lemma formula_axis_extent:
  assumes "fsub (Finite b) (Finite a) = Finite d" "d \<noteq> 0" "n < 2 ^ 53"
  shows "formula_axis trunc (Finite b) (Finite a) (Finite b) n = Inr (int n)"
proof -
  have "fdiv (Finite d) (Finite d) = Inr (Finite 1)" using assms(2) by (simp add: rnd_1)
  moreover have "fmul (Finite 1) (Finite (of_nat n)) = Finite (of_nat n)"
    using rnd_of_nat [OF assms(3)] by simp
  ultimately show ?thesis
    using assms(1,3) by (simp add: formula_axis_def ebind_def int_to_float_nat trunc_of_nat)
qed

lemma double_difference:
  assumes "is_double a" "is_double b" "a \<noteq> b" "\<bar>a\<bar> < 2 powi 1022" "\<bar>b\<bar> < 2 powi 1022"
  shows "\<exists>d. fsub (Finite b) (Finite a) = Finite d \<and> d \<noteq> 0"
proof -
  have "\<bar>b - a\<bar> \<le> \<bar>b\<bar> + \<bar>a\<bar>" by simp
  also have "\<dots> < 2 powi 1022 + 2 powi 1022" using assms(4,5) by simp
  also have "\<dots> = (2::rat) powi 1023" by simp
  finally obtain d where d: "rnd (b - a) = Finite d" using rnd_finite by blast
  moreover have "d \<noteq> 0"
    using double_difference_nonzero [OF assms(2,1)] assms(3) d by auto
  ultimately show ?thesis by simp
qed


text \<open>
  C2, as the code has it.  For corners that are finite floats of magnitude below \<open>2 ^ 1022\<close>, distinct in
  longitude and in latitude, and an image whose sides are below \<open>2 ^ 53\<close>, the left-top
  corner maps to \<open>(0, 0)\<close> and the right-bottom corner to \<open>(width, height)\<close>.
\<close>

theorem corners_round_trip:
  assumes "corner_points m = [lb, lt, rt, rb]"
    and "lt = Finite lon0 # Finite lat0 # lt'" and "rb = Finite lon1 # Finite lat1 # rb'"
    and "is_double lon0" "is_double lat0" "is_double lon1" "is_double lat1"
    and "\<bar>lon0\<bar> < 2 powi 1022" "\<bar>lat0\<bar> < 2 powi 1022"
        "\<bar>lon1\<bar> < 2 powi 1022" "\<bar>lat1\<bar> < 2 powi 1022"
    and "lon0 \<noteq> lon1" and "lat0 \<noteq> lat1"
    and "s ! original_image m = im" and "width im < 2 ^ 53" and "height im < 2 ^ 53"
  shows "convert_to_pixel s m (Finite lon0) (Finite lat0) = Inr (0, 0) \<and>
         convert_to_pixel s m (Finite lon1) (Finite lat1) = Inr (int (width im), int (height im))"
proof -
  obtain dx where dx: "fsub (Finite lon1) (Finite lon0) = Finite dx" "dx \<noteq> 0"
    using double_difference [of lon0 lon1] assms by blast
  obtain dy where dy: "fsub (Finite lat1) (Finite lat0) = Finite dy" "dy \<noteq> 0"
    using double_difference [of lat0 lat1] assms by blast
  have f: "convert_to_pixel s m lon lat
      = formula trunc (Finite lon0, Finite lat0) (Finite lon1, Finite lat1) (height im, width im) lon lat"
    for lon lat
    using convert_to_pixel_as_formula [OF assms(1) _ _ assms(14), of lon lat] assms(2,3) by simp
  show ?thesis
    unfolding f formula_def
    by (simp add: ebind_def formula_axis_origin [OF dx assms(15)] formula_axis_origin [OF dy assms(16)]
        formula_axis_extent [OF dx assms(15)] formula_axis_extent [OF dy assms(16)])
qed


lemma fl_11760: "rnd (11760 / 100) = Finite (4137682157646643 / 35184372088832)"
  using rnd_pos_eval(1) [of 6 "11760 / 100" 6 8275364315293286] by simp

lemma fl_11765: "rnd (11765 / 100) = Finite (4139441376251085 / 35184372088832)"
  using rnd_pos_eval(1) [of 6 "11765 / 100" 6 8278882752502170] by simp

lemma fl_3601: "rnd (3601 / 100) = Finite (5067956955675361 / 140737488355328)"
  using rnd_pos_eval(1) [of 5 "3601 / 100" 5 5067956955675361] by simp

lemma fl_3599: "rnd (3599 / 100) = Finite (5065142205908255 / 140737488355328)"
  using rnd_pos_eval(1) [of 5 "3599 / 100" 5 5065142205908255] by simp

lemma fl_117625: "rnd (117625 / 1000) = Finite (941 / 8)"
  using rnd_exact [of "117625 / 1000" 941 "- 3"] by simp

lemma fl_36: "rnd 36 = Finite 36"
  using rnd_exact [of 36 36 0] by simp

lemma fl_exact_values:
  "rnd (879609302221 / 35184372088832) = Finite (879609302221 / 35184372088832)"
  "rnd (879609302221 / 17592186044416) = Finite (879609302221 / 17592186044416)"
  "rnd (- (1407374883553 / 140737488355328)) = Finite (- (1407374883553 / 140737488355328))"
  "rnd (- (1407374883553 / 70368744177664)) = Finite (- (1407374883553 / 70368744177664))"
  "rnd (1 / 2) = Finite (1 / 2)"
  "rnd 1500 = Finite 1500"
  "rnd 2000 = Finite 2000"
  "rnd 3000 = Finite 3000"
  "rnd 4000 = Finite 4000"
  using rnd_exact [of "879609302221 / 35184372088832" 879609302221 "- 45"]
    rnd_exact [of "879609302221 / 17592186044416" 879609302221 "- 44"]
    rnd_exact [of "- (1407374883553 / 140737488355328)" "- 1407374883553" "- 47"]
    rnd_exact [of "- (1407374883553 / 70368744177664)" "- 1407374883553" "- 46"]
    rnd_exact [of "1 / 2" 1 "- 1"]
    rnd_exact [of 1500 1500 0] rnd_exact [of 2000 2000 0]
    rnd_exact [of 3000 3000 0] rnd_exact [of 4000 4000 0]
  by simp_all

lemma scenario_x: 
  "formula_axis trunc (Finite (941 / 8)) (Finite (4137682157646643 / 35184372088832))
     (Finite (4139441376251085 / 35184372088832)) 4000 = Inr 2000"
  by (simp add: formula_axis_def ebind_def int_to_float_def fl_exact_values trunc_def)

lemma scenario_y: 
  "formula_axis trunc (Finite 36) (Finite (5067956955675361 / 140737488355328))
     (Finite (5065142205908255 / 140737488355328)) 3000 = Inr 1500"
  by (simp add: formula_axis_def ebind_def int_to_float_def fl_exact_values trunc_def)

text \<open>
  The scenario of the specification: the input \<open>(117.625, 36.00)\<close> maps to \<open>(2000, 1500)\<close>.
\<close>

theorem convert_to_pixel_formula_witness:
  "convert_to_pixel [black] scenario (rnd (117625 / 1000)) (rnd 36) = Inr (2000, 1500)"
proof -
  have c: "corner_points scenario
      = [[rnd (11760 / 100), rnd (3599 / 100)], [rnd (11760 / 100), rnd (3601 / 100)],
         [rnd (11765 / 100), rnd (3601 / 100)], [rnd (11765 / 100), rnd (3599 / 100)]]"
    by (simp add: scenario_def)
  have i: "[black] ! original_image scenario = black" by (simp add: scenario_def)
  have "convert_to_pixel [black] scenario (rnd (117625 / 1000)) (rnd 36)
      = formula trunc (rnd (11760 / 100), rnd (3601 / 100)) (rnd (11765 / 100), rnd (3599 / 100))
          (height black, width black) (rnd (117625 / 1000)) (rnd 36)"
    using convert_to_pixel_formula [OF c _ _ i] by simp
  also have "\<dots> = Inr (2000, 1500)"
    unfolding fl_11760 fl_11765 fl_3601 fl_3599 fl_117625 fl_36 formula_def
    by (simp add: black_def scenario_x scenario_y ebind_def)
  finally show ?thesis .
qed


lemma fl_sample_values:
  "rnd (- (1 / 256)) = Finite (- (1 / 256))"
  "rnd 20 = Finite 20"
  "rnd (- 20) = Finite (- 20)"
  "rnd (2559 / 256) = Finite (2559 / 256)"
  "rnd (- (1 / 5120)) = Finite (- (3602879701896397 / 18446744073709551616))"
  "rnd (- (450359962737049625 / 576460752303423488)) = Finite (- (25 / 32))"
  using rnd_exact [of "- (1 / 256)" "- 1" "- 8"] rnd_exact [of 20 20 0]
    rnd_exact [of "- 20" "- 20" 0] rnd_exact [of "2559 / 256" 2559 "- 8"]
    rnd_pos_eval(2) [of "- 13" "1 / 5120" "- 13" 7205759403792794]
    rnd_pos_eval(2) [of "- 1" "450359962737049625 / 576460752303423488" "- 1" 7036874417766400]
  by simp_all

text \<open>
  C1 as stated fails where the value is negative and not an integer.  On the mapper with
  the corners \<open>(10, 40)\<close> and \<open>(30, 20)\<close> and the 4000 x 3000 image, the longitude
  \<open>10 - 1/256\<close>, left of the image, gives \<open>-0.78125\<close>: the code returns the column \<open>0\<close>, the
  floor of the formula is \<open>-1\<close>.
\<close>

theorem truncation_not_floor:
  "is_double (2559 / 256) \<and>
   convert_to_pixel [black] sample_mapper (Finite (2559 / 256)) (Finite 40) = Inr (0, 0) \<and>
   formula floor (Finite 10, Finite 40) (Finite 30, Finite 20) (3000, 4000)
      (Finite (2559 / 256)) (Finite 40) = Inr (- 1, 0)"
proof -
  have "\<lfloor>- (25 / 32 :: rat)\<rfloor> = - 1" by (rule floor_unique) simp_all
  moreover have "\<lceil>- (25 / 32 :: rat)\<rceil> = 0" by (rule ceiling_unique) simp_all
  ultimately show ?thesis
    by (simp add: is_double_def convert_to_pixel_def sample_mapper_def black_def pixel_axis_def
        formula_def formula_axis_def item_def ebind_def int_to_float_def
        fl_sample_values fl_exact_values rnd_0 trunc_def)
qed

lemma small_doubles:
  "is_double 10" "is_double 20" "is_double 30" "is_double 40"
  using rnd_exact [of 10 10 0] rnd_exact [of 20 20 0] rnd_exact [of 30 30 0]
    rnd_exact [of 40 40 0]
  by (simp_all add: is_double_def)

theorem corners_round_trip_witness:
  "convert_to_pixel [black] sample_mapper (Finite 10) (Finite 40) = Inr (0, 0) \<and>
   convert_to_pixel [black] sample_mapper (Finite 30) (Finite 20) = Inr (4000, 3000)"
proof -
  have c: "corner_points sample_mapper = [[Finite 10, Finite 20], [Finite 10, Finite 40],
      [Finite 30, Finite 40], [Finite 30, Finite 20]]"
    by (simp add: sample_mapper_def)
  have i: "[black] ! original_image sample_mapper = black" by (simp add: sample_mapper_def)
  have b: "\<bar>10 :: rat\<bar> < 2 powi 1022" "\<bar>40 :: rat\<bar> < 2 powi 1022"
    "\<bar>30 :: rat\<bar> < 2 powi 1022" "\<bar>20 :: rat\<bar> < 2 powi 1022"
    by simp_all
  have w: "width black < 2 ^ 53" "height black < 2 ^ 53" by (simp_all add: black_def)
  show ?thesis
    using corners_round_trip [OF c refl refl small_doubles(1,4,3,2) b _ _ i w]
    by (simp add: black_def)
qed

section \<open>Drawing leaves the objects of the store untouched\<close>

lemma draw_points_frame:
  "length (snd (draw_points circle m a cs color sz s)) = length s \<and>
   take a (snd (draw_points circle m a cs color sz s)) = take a s"
proof (induction cs arbitrary: s)
  case Nil
  then show ?case by simp
next
  case (Cons c cs)
  obtain lon lat where c: "c = (lon, lat)" by (cases c)
  show ?case
    unfolding c using Cons [of s] Cons [of "s[a := (s ! a)\<lparr>pix := p\<rparr>]" for p]
    by (auto split: sum.splits prod.splits)
qed

lemma draw_frame:
  "length (snd (draw circle resize m cs color sz shw s)) = Suc (length s) \<and>
   take (length s) (snd (draw circle resize m cs color sz shw s)) = s"
proof -
  let ?s1 = "s @ [s ! original_image m]"
  obtain r s2 where dp: "draw_points circle m (length s) cs color sz ?s1 = (r, s2)"
    by (cases "draw_points circle m (length s) cs color sz ?s1")
  have "length s2 = length ?s1" "take (length s) s2 = take (length s) ?s1"
    using draw_points_frame [of circle m "length s" cs color sz ?s1] dp by simp_all
  then have s2: "length s2 = Suc (length s)" "take (length s) s2 = s" by simp_all
  have "snd (draw circle resize m cs color sz shw s) = s2"
    using dp by (simp add: draw_def alloc_def split: sum.splits)
  with s2 show ?thesis by simp
qed

lemma draw_calls_frame:
  "take (length s) (draw_calls circle resize m calls s) = s"
proof (induction calls arbitrary: s)
  case Nil
  then show ?case by simp
next
  case (Cons c calls)
  obtain cs color sz shw where c: "c = (cs, color, sz, shw)" by (cases c)
  let ?s1 = "snd (draw circle resize m cs color sz shw s)"
  have 1: "take (length ?s1) (draw_calls circle resize m calls ?s1) = ?s1" by (rule Cons)
  have "take (length s) (draw_calls circle resize m calls ?s1)
      = take (length s) (take (length ?s1) (draw_calls circle resize m calls ?s1))"
    using draw_frame [of circle resize m cs color sz shw s] by (simp add: min_def)
  also have "\<dots> = s" unfolding 1 using draw_frame [of circle resize m cs color sz shw s] by simp
  finally show ?case by (simp add: c)
qed

lemma draw_fresh:
  assumes "fst (draw circle resize m cs color sz shw s) = Inr (r, shown)"
  shows "r = length s"
  using assms by (auto simp: draw_def alloc_def split: prod.splits sum.splits if_splits)

text \<open>
  C6.  Whatever the calls of \<open>draw\<close> and whether they return or raise, every array that
  was in the store before them, the image of the mapper among them, is the same
  afterwards; a call that returns hands back an array that did not exist before it.
\<close>

theorem draw_keeps_original:
  assumes "original_image m < length s"
  shows "draw_calls circle resize m calls s ! original_image m = s ! original_image m \<and>
         take (length s) (draw_calls circle resize m calls s) = s \<and>
         (fst (draw circle resize m cs color sz shw s) = Inr (r, shown)
            \<longrightarrow> r = length s \<and> r \<noteq> original_image m \<and>
                r < length (snd (draw circle resize m cs color sz shw s)))"
proof -
  have t: "take (length s) (draw_calls circle resize m calls s) = s" by (rule draw_calls_frame)
  have "draw_calls circle resize m calls s ! original_image m
      = take (length s) (draw_calls circle resize m calls s) ! original_image m"
    using assms by simp
  then have o: "draw_calls circle resize m calls s ! original_image m = s ! original_image m"
    unfolding t .
  have "r = length s \<and> r \<noteq> original_image m \<and>
      r < length (snd (draw circle resize m cs color sz shw s))"
    if "fst (draw circle resize m cs color sz shw s) = Inr (r, shown)"
    using draw_fresh [OF that] assms draw_frame [of circle resize m cs color sz shw s] by simp
  with o t show ?thesis by blast
qed

theorem draw_keeps_original_witness:
  "original_image sample_mapper < length [black] \<and>
   draw_calls disc_circle nearest_resize sample_mapper sample_calls [black] ! 0 = black \<and>
   take 1 (draw_calls disc_circle nearest_resize sample_mapper sample_calls [black]) = [black]"
  using draw_keeps_original [of sample_mapper "[black]" disc_circle nearest_resize sample_calls]
  by (simp add: sample_mapper_def)

lemma inf_initialize:
  "initialize (folder_with inf_lines) inf_float map_dir (1920, 1080) [] = Inr (inf_mapper, [black])"
  unfolding initialize_after_imread [OF folder_with_found folder_with_imread]
    folder_with_readlines
  by (simp add: read_corner_points_cases ebind_def inf_mapper_def item_def
      path_join_def map_dir_def a_png_def c_txt_def inf_float_def
      inf_lines_def heading_def cal_line_def marker_def fw_colon_def comma_def fields_def
      strip_def isspace_def digit_float_def marked_lines_def all_parse_def parsed_points_def)

text \<open>
  C2 as stated fails: \<^verbatim>\<open>float\<close> accepts \<^verbatim>\<open>inf\<close>, and for the mapper built from the file whose
  left-top longitude is infinite the corners differ in longitude and in latitude, but
  the transform of the left-top corner raises (\<^verbatim>\<open>inf - inf\<close> is a not-a-number, on which
  \<^verbatim>\<open>int\<close> raises) instead of returning \<open>(0, 0)\<close>.
\<close>

theorem infinite_corner_no_round_trip:
  "initialize (folder_with inf_lines) inf_float map_dir (1920, 1080) [] = Inr (inf_mapper, [black]) \<and>
   corner_points inf_mapper ! 1 = [PInf, Finite 40] \<and>
   corner_points inf_mapper ! 3 = [Finite 30, Finite 20] \<and>
   \<not> py_eq PInf (Finite 30) \<and> \<not> py_eq (Finite 40) (Finite 20) \<and>
   convert_to_pixel [black] inf_mapper PInf (Finite 40) = Inl (ValueError NanToInt)"
  by (simp add: inf_initialize)
     (simp add: inf_mapper_def convert_to_pixel_def pixel_axis_def item_def ebind_def
        black_def int_to_float_def fl_exact_values)

section \<open>Degenerate calibration\<close>












section \<open>The markers\<close>













section \<open>The error of a rounding\<close>

lemma rnd_nonneg_upper:
  assumes "0 \<le> q" "rnd q = Finite r"
  shows "0 \<le> r \<and> r \<le> q + q * 2 powi (- 53) + 2 powi (- 1075)"
proof (cases "q = 0")
  case True
  with assms(2) show ?thesis by (simp add: rnd_def)
next
  case False
  with assms(1) have pos: "0 < q" by simp
  define e where "e = max (floor_log2 q) (- 1022)"
  define u :: rat where "u = 2 powi (e - 52)"
  define k where "k = round_half_even (q / u)"
  have upos: "0 < u" by (simp add: u_def)
  have r: "r = of_int k * u"
    using assms(2) unfolding rnd_pos [OF pos] Let_def e_def [symmetric] u_def [symmetric] k_def [symmetric]
    by (simp split: if_splits)
  have "of_int 0 \<le> q / u" using pos upos by simp
  then have "0 \<le> k" unfolding k_def by (rule round_half_even_mono_ge)
  then have r0: "0 \<le> r" unfolding r using upos by simp
  have "of_int k \<le> q / u + 1 / 2" unfolding k_def using round_half_even_bounds [of "q / u"] by simp
  then have "of_int k * u \<le> (q / u + 1 / 2) * u" using upos by (intro mult_right_mono) auto
  also have "\<dots> = q + u / 2" using upos by (simp add: field_simps)
  finally have r1: "r \<le> q + u / 2" unfolding r .
  have half: "u / 2 = 2 powi (e - 53)"
  proof -
    have "(2::rat) powi (e - 52) = 2 powi (e - 53) * 2 powi 1"
      by (subst power_int_add [symmetric]) simp_all
    then show ?thesis by (simp add: u_def)
  qed
  have "u / 2 \<le> q * 2 powi (- 53) + 2 powi (- 1075)"
  proof (cases "floor_log2 q \<le> - 1022")
    case True
    then have "e - 53 = - 1075" by (simp add: e_def)
    then have "u / 2 = 2 powi (- 1075)" unfolding half by (simp only:)
    moreover have "0 \<le> q * 2 powi (- 53)" using pos by simp
    ultimately show ?thesis by linarith
  next
    case False
    then have ee: "e = floor_log2 q" by (simp add: e_def)
    have "(2::rat) powi (e - 53) = 2 powi e * 2 powi (- 53)"
      by (subst power_int_add [symmetric]) simp_all
    also have "\<dots> \<le> q * 2 powi (- 53)"
      using floor_log2_bounds [OF pos] ee by (intro mult_right_mono) simp_all
    finally have "u / 2 \<le> q * 2 powi (- 53)" unfolding half .
    moreover have "(0::rat) \<le> 2 powi (- 1075)" by simp
    ultimately show ?thesis by linarith
  qed
  with r0 r1 show ?thesis by linarith
qed


lemma of_nat_below:
  fixes n :: nat
  assumes "n < 2 ^ 50"
  shows "(of_nat n :: rat) \<le> 2 ^ 50"
proof -
  have "(of_nat n :: rat) < of_nat (2 ^ 50)" using assms by (simp only: of_nat_less_iff)
  then show ?thesis by simp
qed

lemma small_constants:
  "(2::rat) ^ 50 * 2 powi (- 53) = 1 / 8" "(2::rat) ^ 51 * 2 powi (- 53) = 1 / 4"
  "(2::rat) ^ 50 * 2 powi (- 1075) \<le> 1 / 8" "(2::rat) powi (- 1075) \<le> 1 / 8"
  "(0::rat) \<le> 2 powi (- 53)" "(0::rat) \<le> 2 powi (- 1075)"
  by (simp_all add: power_int_minus)

text \<open>
  A side \<open>w\<close> scaled by a factor that is at most the rounded quotient \<open>t / w\<close> does not
  exceed \<open>t\<close> after truncation: the two roundings add less than one.
\<close>

lemma scaled_fits:
  fixes t w :: nat
  assumes "0 < w" "w < 2 ^ 50" "t < 2 ^ 50"
    and "rnd (of_nat t / of_nat w) = Finite sx" and "0 \<le> sc" and "sc \<le> sx"
    and "rnd (of_nat w * sc) = Finite p"
  shows "0 \<le> trunc p \<and> trunc p \<le> int t"
proof -
  define T W :: rat where "T = of_nat t" and "W = of_nat w"
  define E D :: rat where "E = 2 powi (- 53)" and "D = 2 powi (- 1075)"
  have T: "0 \<le> T" "T \<le> 2 ^ 50" unfolding T_def using of_nat_below [OF assms(3)] by simp_all
  have W: "0 < W" "W \<le> 2 ^ 50" unfolding W_def using of_nat_below [OF assms(2)] assms(1) by simp_all
  have E: "0 \<le> E" "2 ^ 50 * E = 1 / 8" "2 ^ 51 * E = 1 / 4"
    unfolding E_def using small_constants by simp_all
  have D: "0 \<le> D" "2 ^ 50 * D \<le> 1 / 8" "D \<le> 1 / 8"
    unfolding D_def using small_constants by simp_all
  have "0 \<le> T / W" using T W by simp
  from rnd_nonneg_upper [OF this, of sx] assms(4)
  have sx: "sx \<le> T / W + T / W * E + D" unfolding T_def W_def E_def D_def by simp
  have W0: "0 \<le> W" using W(1) by simp
  have "W * sc \<le> W * sx" using assms(6) W0 by (rule mult_left_mono)
  also have "\<dots> \<le> W * (T / W + T / W * E + D)" using sx W0 by (rule mult_left_mono)
  also have "\<dots> = T + T * E + W * D" using W by (simp add: field_simps)
  finally have q1: "W * sc \<le> T + T * E + W * D" .
  have "T * E \<le> 2 ^ 50 * E" using T(2) E(1) by (rule mult_right_mono)
  then have TE: "T * E \<le> 1 / 8" unfolding E(2) .
  have "W * D \<le> 2 ^ 50 * D" using W(2) D(1) by (rule mult_right_mono)
  then have WD: "W * D \<le> 1 / 8" using D(2) by (rule order_trans)
  have q: "0 \<le> W * sc" "W * sc \<le> T + 1 / 4"
  proof -
    show "0 \<le> W * sc" using W(1) assms(5) by simp
    show "W * sc \<le> T + 1 / 4" using q1 TE WD by linarith
  qed
  from rnd_nonneg_upper [OF q(1), of p] assms(7)
  have p: "0 \<le> p" "p \<le> W * sc + W * sc * E + D" unfolding W_def E_def D_def by simp_all
  have "W * sc \<le> 2 ^ 51" using q(2) T(2) by simp
  then have "W * sc * E \<le> 2 ^ 51 * E" using E(1) by (rule mult_right_mono)
  then have qE: "W * sc * E \<le> 1 / 4" unfolding E(3) .
  have "p < T + 1" using p(2) q(2) qE D(3) by linarith
  then have "p < of_int (int t + 1)" unfolding T_def by simp
  then have "\<lfloor>p\<rfloor> < int t + 1" by (simp only: floor_less_iff)
  moreover have "0 \<le> \<lfloor>p\<rfloor>" using p(1) by simp
  ultimately show ?thesis using p(1) by (simp add: trunc_def)
qed

section \<open>Display scaling\<close>

lemma quotient_rounds:
  fixes t w :: nat
  assumes "0 < w" "t < 2 ^ 50"
  shows "\<exists>sx. rnd (of_nat t / of_nat w) = Finite sx \<and> 0 \<le> sx \<and>
           int_truediv (int t) (int w) = Inr (Finite sx)"
proof -
  have w1: "(1::rat) \<le> of_nat w" using assms(1) by simp
  have t0: "(0::rat) \<le> of_nat t" by simp
  have "(of_nat t :: rat) / of_nat w \<le> of_nat t / 1" using w1 t0 by (intro divide_left_mono) simp_all
  also have "\<dots> \<le> 2 ^ 50" using of_nat_below [OF assms(2)] by simp
  also have "\<dots> < (2::rat) powi 1023" by simp
  finally have "\<bar>(of_nat t :: rat) / of_nat w\<bar> < 2 powi 1023" by simp
  then obtain sx where sx: "rnd (of_nat t / of_nat w) = Finite sx" using rnd_finite by blast
  have "(0::rat) \<le> of_nat t / of_nat w" by simp
  from rnd_nonneg_upper [OF this sx] have "0 \<le> sx" by simp
  moreover have "int_truediv (int t) (int w) = Inr (Finite sx)"
    using assms(1) sx by (simp add: int_truediv_def)
  ultimately show ?thesis using sx by blast
qed

lemma scaled_side:
  fixes t w :: nat
  assumes "0 < w" "w < 2 ^ 50" "t < 2 ^ 50"
    and "rnd (of_nat t / of_nat w) = Finite sx" and "0 \<le> sc" and "sc \<le> sx"
  shows "\<exists>p. fmul (Finite (of_nat w)) (Finite sc) = Finite p \<and> scaled (Finite sc) w = trunc p \<and>
           0 \<le> trunc p \<and> trunc p \<le> int t"
proof -
  have "0 \<le> sx" using assms(5,6) by simp
  have "(0::rat) \<le> of_nat t / of_nat w" by simp
  from rnd_nonneg_upper [OF this assms(4)]
  have sx: "sx \<le> of_nat t / of_nat w + of_nat t / of_nat w * 2 powi (- 53) + 2 powi (- 1075)"
    by simp
  have w1: "(1::rat) \<le> of_nat w" using assms(1) by simp
  then have "(of_nat t :: rat) / of_nat w \<le> of_nat t / 1" by (intro divide_left_mono) simp_all
  then have q: "(of_nat t :: rat) / of_nat w \<le> 2 ^ 50" using of_nat_below [OF assms(3)] by simp
  have "of_nat t / of_nat w * 2 powi (- 53) \<le> 2 ^ 50 * (2::rat) powi (- 53)"
    using q small_constants(5) by (rule mult_right_mono)
  then have "sx \<le> 2 ^ 50 + 1 / 8 + 1 / 8"
    using sx q small_constants(1,4) by linarith
  then have sxb: "sx \<le> 2 ^ 51" by simp
  have "of_nat w * sc \<le> 2 ^ 50 * sx"
    using of_nat_below [OF assms(2)] assms(5,6) by (intro mult_mono) simp_all
  also have "\<dots> \<le> 2 ^ 50 * 2 ^ 51" using sxb by (intro mult_left_mono) simp_all
  also have "\<dots> < (2::rat) powi 1023" by simp
  finally have "\<bar>of_nat w * sc\<bar> < 2 powi 1023" using assms(5) by simp
  then obtain p where p: "rnd (of_nat w * sc) = Finite p" using rnd_finite by blast
  from scaled_fits [OF assms(1-4) assms(5,6) p] p show ?thesis
    by (simp add: scaled_def)
qed


lemma slice_centered:
  fixes n t :: nat
  assumes "n \<le> t"
  shows "slice_bounds t ((int t - int n) div 2) ((int t - int n) div 2 + int n)
           = ((t - n) div 2, n)"
proof -
  have o: "(int t - int n) div 2 = int ((t - n) div 2)"
    using assms by (simp add: of_nat_diff zdiv_int)
  have le: "(t - n) div 2 + n \<le> t" using assms by simp
  have a: "slice_index t (int ((t - n) div 2)) = (t - n) div 2"
    using le by (simp add: slice_index_def)
  have "int ((t - n) div 2) + int n = int ((t - n) div 2 + n)" by simp
  then have b: "slice_index t (int ((t - n) div 2) + int n) = (t - n) div 2 + n"
    using le by (simp only: slice_index_def) simp
  show ?thesis unfolding o slice_bounds_def a b by simp
qed

lemma paste_centered:
  assumes "width r \<le> tw" "height r \<le> th"
  shows "paste \<lparr> height = th, width = tw, pix = (\<lambda>row col. gray) \<rparr>
           ((int th - int (height r)) div 2) ((int th - int (height r)) div 2 + int (height r))
           ((int tw - int (width r)) div 2) ((int tw - int (width r)) div 2 + int (width r)) r
         = Inr (letterbox tw th r)"
proof -
  let ?y0 = "(th - height r) div 2" and ?x0 = "(tw - width r) div 2"
  have p: "(\<lambda>row col.
      if ?y0 \<le> row \<and> row < ?y0 + height r \<and> ?x0 \<le> col \<and> col < ?x0 + width r
      then pix r (if height r = 1 then 0 else row - ?y0) (if width r = 1 then 0 else col - ?x0)
      else gray)
    = (\<lambda>row col.
      if ?y0 \<le> row \<and> row < ?y0 + height r \<and> ?x0 \<le> col \<and> col < ?x0 + width r
      then pix r (row - ?y0) (col - ?x0) else gray)"
  proof (intro ext)
    fix row col
    show "(if ?y0 \<le> row \<and> row < ?y0 + height r \<and> ?x0 \<le> col \<and> col < ?x0 + width r
      then pix r (if height r = 1 then 0 else row - ?y0) (if width r = 1 then 0 else col - ?x0)
      else gray)
     = (if ?y0 \<le> row \<and> row < ?y0 + height r \<and> ?x0 \<le> col \<and> col < ?x0 + width r
      then pix r (row - ?y0) (col - ?x0) else gray)"
    proof (cases "?y0 \<le> row \<and> row < ?y0 + height r \<and> ?x0 \<le> col \<and> col < ?x0 + width r")
      case False
      then show ?thesis by (simp only: if_False)
    next
      case True
      then have "height r = 1 \<Longrightarrow> row - ?y0 = 0" "width r = 1 \<Longrightarrow> col - ?x0 = 0" by auto
      then have "(if height r = 1 then 0 else row - ?y0) = row - ?y0"
        "(if width r = 1 then 0 else col - ?x0) = col - ?x0" by auto
      then show ?thesis by (simp only:)
    qed
  qed
  show ?thesis
    unfolding paste_def image.simps slice_centered [OF assms(1)] slice_centered [OF assms(2)]
      prod.case
    by (simp add: broadcastable_def letterbox_def p)
qed


lemma cv2_resize_shape:
  assumes "cv2_resize resize im (w, h) = Inr r"
  shows "0 < w \<and> 0 < h \<and> int (width r) = w \<and> int (height r) = h"
  using assms
  by (auto simp: cv2_resize_def ebind_def split: if_splits sum.splits)

text \<open>
  C7, as the code has it.  For a non-empty image and a target size (all sides below \<open>2 ^ 50\<close>), when
  \<^verbatim>\<open>cv2.resize\<close> returns the image \<open>r\<close> for the size obtained by scaling both sides with the
  one factor \<open>min (tw / w, th / h)\<close>, display scaling returns the canvas of exactly the
  target size that is mid-gray except for \<open>r\<close> placed at the offsets
  \<open>((tw - width r) div 2, (th - height r) div 2)\<close>.  The resized image fits the canvas, and
  the left and top paddings are the halves rounded down of the leftover space.
\<close>

theorem display_scaling_letterbox:
  assumes "display_size m = (int tw, int th)"
    and "0 < width im" and "width im < 2 ^ 50" and "0 < height im" and "height im < 2 ^ 50"
    and "tw < 2 ^ 50" and "th < 2 ^ 50"
    and "sc = scale_factor tw th im"
    and "cv2_resize resize im (scaled sc (width im), scaled sc (height im)) = Inr r"
  shows "resize_with_padding resize m im = Inr (letterbox tw th r) \<and>
         height (letterbox tw th r) = th \<and> width (letterbox tw th r) = tw \<and>
         int (width r) = scaled sc (width im) \<and> int (height r) = scaled sc (height im) \<and>
         width r \<le> tw \<and> height r \<le> th \<and>
         (tw - width r) div 2 \<le> (tw - width r) - (tw - width r) div 2 \<and>
         (th - height r) div 2 \<le> (th - height r) - (th - height r) div 2"
proof -
  let ?W = "width im" and ?H = "height im"
  obtain sx where sx: "rnd (of_nat tw / of_nat ?W) = Finite sx" "0 \<le> sx"
    "int_truediv (int tw) (int ?W) = Inr (Finite sx)"
    using quotient_rounds [OF assms(2) assms(6)] by blast
  obtain sy where sy: "rnd (of_nat th / of_nat ?H) = Finite sy" "0 \<le> sy"
    "int_truediv (int th) (int ?H) = Inr (Finite sy)"
    using quotient_rounds [OF assms(4) assms(7)] by blast
  define c where "c = (if sy < sx then sy else sx)"
  have c: "0 \<le> c" "c \<le> sx" "c \<le> sy" using sx(2) sy(2) by (auto simp: c_def)
  have fm: "fmin (Finite sx) (Finite sy) = Finite c" by (simp add: fmin_def c_def)
  have sc: "sc = Finite c" unfolding assms(8) scale_factor_def sx(1) sy(1) fm ..
  obtain p where p: "fmul (Finite (of_nat ?W)) (Finite c) = Finite p"
    "scaled (Finite c) ?W = trunc p" "0 \<le> trunc p" "trunc p \<le> int tw"
    using scaled_side [OF assms(2,3,6) sx(1) c(1,2)] by blast
  obtain q where q: "fmul (Finite (of_nat ?H)) (Finite c) = Finite q"
    "scaled (Finite c) ?H = trunc q" "0 \<le> trunc q" "trunc q \<le> int th"
    using scaled_side [OF assms(4,5,7) sy(1) c(1,3)] by blast
  have "(2::nat) ^ 50 \<le> 2 ^ 53" by simp
  then have "?W < 2 ^ 53" "?H < 2 ^ 53" using assms(3,5) by simp_all
  then have fw: "int_to_float (int ?W) = Inr (Finite (of_nat ?W))"
    and fh: "int_to_float (int ?H) = Inr (Finite (of_nat ?H))"
    by (simp_all add: int_to_float_nat)
  have rs: "cv2_resize resize im (trunc p, trunc q) = Inr r"
    using assms(9) unfolding sc p(2) q(2) .
  from cv2_resize_shape [OF rs]
  have shape: "int (width r) = trunc p" "int (height r) = trunc q" by simp_all
  have fit: "width r \<le> tw" "height r \<le> th" using shape p(4) q(4) by simp_all
  have rp: "rnd (of_nat ?W * c) = Finite p" and rq: "rnd (of_nat ?H * c) = Finite q"
    using p(1) q(1) by simp_all
  have gc: "gray_canvas (int th) (int tw)
      = Inr \<lparr> height = th, width = tw, pix = (\<lambda>row col. gray) \<rparr>"
    by (simp add: gray_canvas_def)
  have "resize_with_padding resize m im
      = paste \<lparr> height = th, width = tw, pix = (\<lambda>row col. gray) \<rparr>
          ((int th - trunc q) div 2) ((int th - trunc q) div 2 + trunc q)
          ((int tw - trunc p) div 2) ((int tw - trunc p) div 2 + trunc p) r"
    unfolding resize_with_padding_def assms(1)
    by (simp add: Let_def sx(3) sy(3) fm fw fh rp rq gc rs ebind_def)
  also have "\<dots> = Inr (letterbox tw th r)"
    unfolding shape [symmetric] using fit by (rule paste_centered)
  finally have main: "resize_with_padding resize m im = Inr (letterbox tw th r)" .
  have dims: "height (letterbox tw th r) = th" "width (letterbox tw th r) = tw"
    by (simp_all add: letterbox_def)
  have sizes: "int (width r) = scaled sc ?W" "int (height r) = scaled sc ?H"
    unfolding sc p(2) q(2) by (rule shape)+
  have pad: "(tw - width r) div 2 \<le> (tw - width r) - (tw - width r) div 2"
    "(th - height r) div 2 \<le> (th - height r) - (th - height r) div 2"
    by simp_all
  from main dims sizes fit pad show ?thesis by blast
qed

lemma fl_scale_values:
  "rnd (12 / 25) = Finite (1080863910568919 / 2251799813685248)"
  "rnd (9 / 25) = Finite (3242591731706757 / 9007199254740992)"
  "rnd (405323966463344625 / 281474976710656) = Finite 1440"
  "rnd (1215971899390033875 / 1125899906842624) = Finite 1080"
  using rnd_pos_eval(1) [of "- 2" "12 / 25" "- 2" 8646911284551352]
    rnd_pos_eval(1) [of "- 2" "9 / 25" "- 2" 6485183463413514]
    rnd_pos_eval(1) [of 10 "405323966463344625 / 281474976710656" 10 6333186975989760]
    rnd_pos_eval(1) [of 10 "1215971899390033875 / 1125899906842624" 10 4749890231992320]
  by simp_all

lemma sample_scale:
  "scale_factor 1920 1080 black = Finite (3242591731706757 / 9007199254740992)"
  by (simp add: scale_factor_def black_def fl_scale_values fmin_def)

lemma sample_scaled:
  "scaled (Finite (3242591731706757 / 9007199254740992)) 4000 = 1440"
  "scaled (Finite (3242591731706757 / 9007199254740992)) 3000 = 1080"
  by (simp_all add: scaled_def fl_scale_values trunc_def)

text \<open>
  The default display: the 4000 x 3000 image on the 1920 x 1080 canvas is scaled by
  \<open>0.36\<close> to 1440 x 1080 and placed at the offsets \<open>(240, 0)\<close>.
\<close>

theorem display_scaling_letterbox_witness:
  "map_sum id (\<lambda>out. (height out, width out, pix out 0 0, pix out 500 239, pix out 500 240,
                        pix out 1079 1679, pix out 1079 1680))
     (resize_with_padding nearest_resize sample_mapper black)
   = Inr (1080, 1920, gray, gray, (0, 0, 0), (0, 0, 0), gray)"
proof -
  define r where "r = \<lparr> height = 1080, width = 1440,
      pix = (\<lambda>row col. pix black (row * height black div 1080) (col * width black div 1440)) \<rparr>"
  have d: "display_size sample_mapper = (int 1920, int 1080)" by (simp add: sample_mapper_def)
  have b: "0 < width black" "width black < 2 ^ 50" "0 < height black" "height black < 2 ^ 50"
    by (simp_all add: black_def)
  have t: "(1920::nat) < 2 ^ 50" "(1080::nat) < 2 ^ 50" by simp_all
  have rs: "cv2_resize nearest_resize black
      (scaled (Finite (3242591731706757 / 9007199254740992)) (width black),
       scaled (Finite (3242591731706757 / 9007199254740992)) (height black)) = Inr r"
    using sample_scaled by (simp add: black_def cv2_resize_def nearest_resize_def ebind_def r_def)
  from display_scaling_letterbox [OF d b t sample_scale [symmetric] rs]
  have "resize_with_padding nearest_resize sample_mapper black = Inr (letterbox 1920 1080 r)"
    by blast
  then show ?thesis by (simp add: letterbox_def r_def black_def gray_def)
qed

lemma fl_strip_values:
  "rnd (135107988821114875 / 70368744177664) = Finite 1920"
  "rnd (1080863910568919 / 2251799813685248) = Finite (1080863910568919 / 2251799813685248)"
  "rnd 1080 = Finite 1080"
  using rnd_pos_eval(1) [of 10 "135107988821114875 / 70368744177664" 10 8444249301319680]
    rnd_exact [of "1080863910568919 / 2251799813685248" 8646911284551352 "- 54"]
    rnd_exact [of 1080 1080 0]
  by simp_all

text \<open>
  C7 as stated fails for a source whose scaled side truncates to zero: the strip of
  4000 x 1 pixels on the 1920 x 1080 canvas is scaled by \<open>0.48\<close> to 1920 x 0, a size that
  \<^verbatim>\<open>cv2.resize\<close> rejects, so the call raises and returns no canvas.
\<close>

theorem strip_has_no_display:
  "scale_factor 1920 1080 strip_image = Finite (1080863910568919 / 2251799813685248) \<and>
   scaled (scale_factor 1920 1080 strip_image) (width strip_image) = 1920 \<and>
   scaled (scale_factor 1920 1080 strip_image) (height strip_image) = 0 \<and>
   resize_with_padding nearest_resize sample_mapper strip_image = Inl Cv2Error"
proof -
  have f: "\<lfloor>1080863910568919 / 2251799813685248 :: rat\<rfloor> = 0"
    by (rule floor_unique) simp_all
  have s: "scale_factor 1920 1080 strip_image = Finite (1080863910568919 / 2251799813685248)"
    by (simp add: scale_factor_def strip_image_def fl_scale_values fl_strip_values fmin_def)
  have "resize_with_padding nearest_resize sample_mapper strip_image = Inl Cv2Error"
    by (simp add: resize_with_padding_def sample_mapper_def strip_image_def int_truediv_def
        fl_scale_values fl_strip_values fl_exact_values fmin_def int_to_float_def ebind_def
        trunc_def f gray_canvas_def cv2_resize_def rnd_1)
  then show ?thesis
    unfolding s by (simp add: scaled_def strip_image_def fl_strip_values trunc_def f)
qed

end
